theory Spec2Isabelle
  imports Main "HOL-Library.Sublist"
begin

section \<open>The platform: a POSIX file tree with symbolic links\<close>

text \<open>
  The program is one Python module, \<^verbatim>\<open>main.py\<close>, that serves a directory over HTTP. Its
  two handlers and its start-up function call \<^verbatim>\<open>pathlib\<close> and the operating system; this
  section models what they call. A path object is an absolute POSIX path, the list of its
  components below \<^verbatim>\<open>/\<close>. File contents are byte strings. The process is taken to
  have permission for every call it makes and the file system to be writable: no call
  fails with \<^verbatim>\<open>EACCES\<close>, \<^verbatim>\<open>EPERM\<close> or \<^verbatim>\<open>EROFS\<close>. The limit \<^verbatim>\<open>PATH_MAX\<close> on the length of
  a whole path string is not modelled either; the limit on one name is.
\<close>

type_synonym posix_path = "string list"
type_synonym bytes = "char list"

text \<open>
  A regular file holds its bytes and the two times \<^verbatim>\<open>st_ctime\<close> and \<^verbatim>\<open>st_mtime\<close>; a
  directory holds its entries in the order a scan returns them; a symbolic link holds
  its target string.
\<close>

datatype node =
    File bytes int int
  | Dir "(string \<times> node) list"
  | Symlink string

datatype errno = ENOENT | ENOTDIR | ELOOP | EEXIST | ENAMETOOLONG

datatype exn =
    OSError errno posix_path
  | RuntimeError string
  | ValueError string

text \<open>\<^verbatim>\<open>lookup\<close> reads the tree along a path without following any link (as \<^verbatim>\<open>lstat\<close> does
  on a path whose directories are real).\<close>

fun lookup :: "node \<Rightarrow> posix_path \<Rightarrow> node option" where
  "lookup n [] = Some n"
| "lookup (Dir es) (c # cs) = (case map_of es c of None \<Rightarrow> None | Some m \<Rightarrow> lookup m cs)"
| "lookup (File b ct mt) (c # cs) = None"
| "lookup (Symlink t) (c # cs) = None"

definition readlink :: "node \<Rightarrow> posix_path \<Rightarrow> string option" where
  "readlink fs p = (case lookup fs p of Some (Symlink t) \<Rightarrow> Some t | _ \<Rightarrow> None)"

subsection \<open>Path strings\<close>

text \<open>Python's \<^verbatim>\<open>s.split(sep)\<close> for a one-character separator.\<close>

fun split_on :: "char \<Rightarrow> string \<Rightarrow> string list" where
  "split_on sep [] = [[]]"
| "split_on sep (x # xs) =
     (if x = sep then [] # split_on sep xs
      else (case split_on sep xs of [] \<Rightarrow> [[x]] | y # ys \<Rightarrow> (x # y) # ys))"

text \<open>\<^verbatim>\<open>sep.join(parts)\<close>.\<close>

fun join_sep :: "string \<Rightarrow> string list \<Rightarrow> string" where
  "join_sep sep [] = []"
| "join_sep sep [x] = x"
| "join_sep sep (x # y # ys) = x @ sep @ join_sep sep (y # ys)"

text \<open>\<^verbatim>\<open>s.replace(a, b)\<close> for one-character \<^verbatim>\<open>a\<close> and \<^verbatim>\<open>b\<close>.\<close>

definition replace :: "char \<Rightarrow> char \<Rightarrow> string \<Rightarrow> string" where
  "replace a b s = map (\<lambda>x. if x = a then b else x) s"

text \<open>The components \<^verbatim>\<open>pathlib\<close> keeps when it parses a string: empty components and
  \<^verbatim>\<open>.\<close> are dropped, \<^verbatim>\<open>..\<close> is kept.\<close>

definition parts :: "string \<Rightarrow> string list" where
  "parts s = filter (\<lambda>c. c \<noteq> [] \<and> c \<noteq> ''.'') (split_on CHR ''/'' s)"

fun is_abs :: "string \<Rightarrow> bool" where
  "is_abs [] = False"
| "is_abs (x # xs) = (x = CHR ''/'')"

text \<open>\<^verbatim>\<open>base / s\<close>: an absolute right operand replaces the base.\<close>

definition joinpath :: "posix_path \<Rightarrow> string \<Rightarrow> posix_path" where
  "joinpath base s = (if is_abs s then parts s else base @ parts s)"

text \<open>\<^verbatim>\<open>str(p)\<close> of an absolute path, and of a relative one (\<^verbatim>\<open>.\<close> when it is empty).\<close>

definition str_path :: "posix_path \<Rightarrow> string" where
  "str_path p = (if p = [] then ''/'' else concat (map (\<lambda>c. ''/'' @ c) p))"

definition str_rel :: "string list \<Rightarrow> string" where
  "str_rel p = (if p = [] then ''.'' else join_sep ''/'' p)"

text \<open>\<^verbatim>\<open>p.name\<close>: the last component, the empty string for the root.\<close>

definition name_of :: "posix_path \<Rightarrow> string" where
  "name_of p = (if p = [] then [] else last p)"

subsection \<open>Resolving paths\<close>

text \<open>
  \<^verbatim>\<open>posixpath._joinrealpath\<close> in its non-strict mode, the engine of \<^verbatim>\<open>Path.resolve()\<close>:
  it walks the components, drops \<^verbatim>\<open>.\<close>, pops for \<^verbatim>\<open>..\<close>, splices in the target of every
  link it meets and keeps a component that does not exist. Its first argument is what
  \<^verbatim>\<open>os.lstat\<close> and \<^verbatim>\<open>os.readlink\<close> report. The library resolves a link's target in a
  nested call and then goes on with the rest; here the target's components are put in
  front of the rest, which visits the same components in the same order. The library
  stops on a link that is met again while it is being resolved; here such a walk never
  returns, which is the value \<^verbatim>\<open>None\<close>.
\<close>

partial_function (option) joinrealpath ::
  "(posix_path \<Rightarrow> string option) \<Rightarrow> posix_path \<Rightarrow> string list \<Rightarrow> posix_path option" where
  "joinrealpath rl cur rest =
     (case rest of
        [] \<Rightarrow> Some cur
      | c # rest' \<Rightarrow>
          if c = [] \<or> c = ''.'' then joinrealpath rl cur rest'
          else if c = ''..'' then joinrealpath rl (butlast cur) rest'
          else (case rl (cur @ [c]) of
                  None \<Rightarrow> joinrealpath rl (cur @ [c]) rest'
                | Some t \<Rightarrow>
                    joinrealpath rl (if is_abs t then [] else cur)
                      (split_on CHR ''/'' t @ rest')))"

declare joinrealpath.simps [code]

text \<open>
  \<^verbatim>\<open>Path.resolve()\<close>: a NUL character in the path makes \<^verbatim>\<open>os.lstat\<close> raise
  \<^verbatim>\<open>ValueError\<close>. What the library answers for a path on which it meets a link again
  (a \<^verbatim>\<open>RuntimeError\<close>, or the unresolved rest joined on and normalized) is not derived
  here: it is the parameter \<^verbatim>\<open>on_loop\<close>.
\<close>

definition resolve ::
  "(posix_path \<Rightarrow> exn + posix_path) \<Rightarrow> node \<Rightarrow> posix_path \<Rightarrow> exn + posix_path" where
  "resolve on_loop fs p =
     (if list_ex (\<lambda>c. CHR 0x00 \<in> set c) p then Inl (ValueError ''embedded null byte'')
      else (case joinrealpath (readlink fs) [] p of
              None \<Rightarrow> on_loop p
            | Some q \<Rightarrow> Inr q))"

definition NAME_MAX :: nat where
  "NAME_MAX = 255"

definition MAXSYMLINKS :: nat where
  "MAXSYMLINKS = 40"

text \<open>
  The kernel's path walk behind \<^verbatim>\<open>stat\<close>, with the number of links followed so far:
  every component is looked up in a directory that exists, a name longer than
  \<^verbatim>\<open>NAME_MAX\<close> bytes is refused, links are followed up to \<^verbatim>\<open>MAXSYMLINKS\<close> of them, and a
  missing component or a component below a non-directory is an error. The limit on the
  length of the whole path string is not modelled.
\<close>

function namei :: "node \<Rightarrow> nat \<Rightarrow> posix_path \<Rightarrow> string list \<Rightarrow> errno + posix_path" where
  "namei fs n cur [] = Inr cur"
| "namei fs n cur (c # rest) =
     (case lookup fs cur of
        None \<Rightarrow> Inl ENOENT
      | Some (File b ct mt) \<Rightarrow> Inl ENOTDIR
      | Some (Symlink t) \<Rightarrow> Inl ENOTDIR
      | Some (Dir es) \<Rightarrow>
          if c = [] \<or> c = ''.'' then namei fs n cur rest
          else if c = ''..'' then namei fs n (butlast cur) rest
          else if NAME_MAX < length c then Inl ENAMETOOLONG
          else (case map_of es c of
                  None \<Rightarrow> Inl ENOENT
                | Some (Symlink t) \<Rightarrow>
                    if MAXSYMLINKS \<le> n then Inl ELOOP
                    else namei fs (Suc n) (if is_abs t then [] else cur)
                           (split_on CHR ''/'' t @ rest)
                | Some (File b ct mt) \<Rightarrow> namei fs n (cur @ [c]) rest
                | Some (Dir es') \<Rightarrow> namei fs n (cur @ [c]) rest))"
  by pat_completeness auto
termination
  by (relation "measures [\<lambda>(fs, n, cur, rest). MAXSYMLINKS - n,
                          \<lambda>(fs, n, cur, rest). length rest]") auto

declare namei.simps(2) [simp del]

text \<open>\<^verbatim>\<open>os.stat(p)\<close>: the node the walk ends on.\<close>

definition stat :: "node \<Rightarrow> posix_path \<Rightarrow> exn + node" where
  "stat fs p =
     (case namei fs 0 [] p of
        Inl e \<Rightarrow> Inl (OSError e p)
      | Inr q \<Rightarrow>
          (case lookup fs q of None \<Rightarrow> Inl (OSError ENOENT p) | Some n \<Rightarrow> Inr n))"

text \<open>
  \<^verbatim>\<open>Path.exists()\<close>, \<^verbatim>\<open>Path.is_file()\<close> and \<^verbatim>\<open>Path.is_dir()\<close> answer \<^verbatim>\<open>False\<close> when
  \<^verbatim>\<open>stat\<close> fails with one of the errors \<^verbatim>\<open>pathlib\<close> ignores, and raise any other.
\<close>

definition ignored_errno :: "errno \<Rightarrow> bool" where
  "ignored_errno e = (e = ENOENT \<or> e = ENOTDIR \<or> e = ELOOP)"

definition ignore_error :: "exn \<Rightarrow> exn + bool" where
  "ignore_error x =
     (case x of
        OSError e p \<Rightarrow> if ignored_errno e then Inr False else Inl x
      | RuntimeError m \<Rightarrow> Inl x
      | ValueError m \<Rightarrow> Inr False)"

definition exists :: "node \<Rightarrow> posix_path \<Rightarrow> exn + bool" where
  "exists fs p = (case stat fs p of Inl x \<Rightarrow> ignore_error x | Inr n \<Rightarrow> Inr True)"

definition is_file :: "node \<Rightarrow> posix_path \<Rightarrow> exn + bool" where
  "is_file fs p =
     (case stat fs p of
        Inl x \<Rightarrow> ignore_error x
      | Inr (File b ct mt) \<Rightarrow> Inr True
      | Inr (Dir es) \<Rightarrow> Inr False
      | Inr (Symlink t) \<Rightarrow> Inr False)"

definition is_dir :: "node \<Rightarrow> posix_path \<Rightarrow> exn + bool" where
  "is_dir fs p =
     (case stat fs p of
        Inl x \<Rightarrow> ignore_error x
      | Inr (Dir es) \<Rightarrow> Inr True
      | Inr (File b ct mt) \<Rightarrow> Inr False
      | Inr (Symlink t) \<Rightarrow> Inr False)"

section \<open>The download handler\<close>

record http_exception =
  status_code :: nat
  detail :: string

record file_response =
  path :: posix_path
  filename :: string
  media_type :: string

definition caminho_invalido :: string where
  "caminho_invalido = ''Caminho inv'' @ [CHR 0xC3, CHR 0xA1] @ ''lido''"

definition arquivo_nao_encontrado :: string where
  "arquivo_nao_encontrado = ''Arquivo n'' @ [CHR 0xC3, CHR 0xA3] @ ''o encontrado''"

fun str_errno :: "errno \<Rightarrow> string" where
  "str_errno ENOENT = ''[Errno 2] No such file or directory''"
| "str_errno ENOTDIR = ''[Errno 20] Not a directory''"
| "str_errno ELOOP = ''[Errno 40] Too many levels of symbolic links''"
| "str_errno EEXIST = ''[Errno 17] File exists''"
| "str_errno ENAMETOOLONG = ''[Errno 36] File name too long''"

text \<open>\<^verbatim>\<open>str(e)\<close>; the file name is shown between quotes.\<close>

fun str_exn :: "exn \<Rightarrow> string" where
  "str_exn (OSError e p) = str_errno e @ '': '' @ [CHR 0x27] @ str_path p @ [CHR 0x27]"
| "str_exn (RuntimeError m) = m"
| "str_exn (ValueError m) = m"

text \<open>
  \<^verbatim>\<open>download_file(file_path)\<close>, with the module's \<^verbatim>\<open>target_directory\<close> and the file
  system as arguments. A raised \<^verbatim>\<open>HTTPException\<close> is the left result; any other
  exception becomes the one with status 500.
\<close>

definition download_file ::
  "(posix_path \<Rightarrow> exn + posix_path) \<Rightarrow> node \<Rightarrow> posix_path \<Rightarrow> string
     \<Rightarrow> http_exception + file_response" where
  "download_file on_loop fs target_directory file_path =
     (case resolve on_loop fs (joinpath target_directory file_path) of
        Inl e \<Rightarrow> Inl \<lparr>status_code = 500, detail = str_exn e\<rparr>
      | Inr requested_path \<Rightarrow>
          if \<not> prefix (str_path target_directory) (str_path requested_path)
          then Inl \<lparr>status_code = 400, detail = caminho_invalido\<rparr>
          else (case exists fs requested_path of
                  Inl e \<Rightarrow> Inl \<lparr>status_code = 500, detail = str_exn e\<rparr>
                | Inr False \<Rightarrow> Inl \<lparr>status_code = 404, detail = arquivo_nao_encontrado\<rparr>
                | Inr True \<Rightarrow>
                    (case is_file fs requested_path of
                       Inl e \<Rightarrow> Inl \<lparr>status_code = 500, detail = str_exn e\<rparr>
                     | Inr False \<Rightarrow>
                         Inl \<lparr>status_code = 404, detail = arquivo_nao_encontrado\<rparr>
                     | Inr True \<Rightarrow>
                         Inr \<lparr>path = requested_path, filename = name_of requested_path,
                               media_type = ''application/octet-stream''\<rparr>)))"

text \<open>What a \<^verbatim>\<open>FileResponse\<close> streams: the bytes of the regular file at its path.\<close>

definition streamed :: "node \<Rightarrow> file_response \<Rightarrow> bytes option" where
  "streamed fs r = (case stat fs (path r) of Inr (File b ct mt) \<Rightarrow> Some b | _ \<Rightarrow> None)"

section \<open>The listing handler\<close>

text \<open>
  \<^verbatim>\<open>root.rglob('*')\<close>: it asks \<^verbatim>\<open>is_dir\<close> of the root, which may raise, and yields
  nothing when the root is not a directory; otherwise it yields the entries of
  the root, then those of each real subdirectory, depth first. Links to directories are
  listed and not entered.
\<close>

fun rglob_rel :: "node \<Rightarrow> string list list" where
  "rglob_rel (Dir es) =
     map (\<lambda>e. [fst e]) es @ concat (map (\<lambda>e. map ((#) (fst e)) (rglob_rel (snd e))) es)"
| "rglob_rel (File b ct mt) = []"
| "rglob_rel (Symlink t) = []"

definition rglob :: "node \<Rightarrow> posix_path \<Rightarrow> exn + posix_path list" where
  "rglob fs root =
     (case is_dir fs root of
        Inl e \<Rightarrow> Inl e
      | Inr False \<Rightarrow> Inr []
      | Inr True \<Rightarrow>
          (case stat fs root of
             Inr (Dir es) \<Rightarrow> Inr (map (\<lambda>r. root @ r) (rglob_rel (Dir es)))
           | _ \<Rightarrow> Inr []))"

text \<open>\<^verbatim>\<open>p.relative_to(base)\<close> raises \<^verbatim>\<open>ValueError\<close> when \<^verbatim>\<open>base\<close> is not above \<^verbatim>\<open>p\<close>.\<close>

definition relative_to :: "posix_path \<Rightarrow> posix_path \<Rightarrow> exn + string list" where
  "relative_to p base =
     (if prefix base p then Inr (drop (length base) p)
      else Inl (ValueError (str_path p @ '' is not in the subpath of '' @ str_path base)))"

text \<open>The fields of a \<^verbatim>\<open>stat\<close> result the handler reads. The tree records no size and no
  times for a directory; they read as 0.\<close>

fun st_size :: "node \<Rightarrow> nat" where
  "st_size (File b ct mt) = length b"
| "st_size (Dir es) = 0"
| "st_size (Symlink t) = length t"

fun st_ctime :: "node \<Rightarrow> int" where
  "st_ctime (File b ct mt) = ct"
| "st_ctime (Dir es) = 0"
| "st_ctime (Symlink t) = 0"

fun st_mtime :: "node \<Rightarrow> int" where
  "st_mtime (File b ct mt) = mt"
| "st_mtime (Dir es) = 0"
| "st_mtime (Symlink t) = 0"

record file_info =
  name :: string
  type :: string
  size_bytes :: nat
  created_at :: string
  modified_at :: string
  subdirectory :: string

text \<open>
  The body of the loop for one regular file. The table behind \<^verbatim>\<open>mimetypes.guess_type\<close>
  and the local-time formatting \<^verbatim>\<open>datetime.fromtimestamp(t).isoformat()\<close> are not part
  of the module: they are the parameters \<^verbatim>\<open>guess_type\<close> and \<^verbatim>\<open>isoformat\<close>. The
  formatting raises for a time it cannot represent.
\<close>

definition describe ::
  "(string \<Rightarrow> string option) \<Rightarrow> (int \<Rightarrow> exn + string) \<Rightarrow> node \<Rightarrow> posix_path \<Rightarrow> posix_path
     \<Rightarrow> exn + file_info" where
  "describe guess_type isoformat fs target_directory file_path =
     (case stat fs file_path of
        Inl e \<Rightarrow> Inl e
      | Inr st \<Rightarrow>
          (case isoformat (st_ctime st) of
             Inl e \<Rightarrow> Inl e
           | Inr created \<Rightarrow>
               (case isoformat (st_mtime st) of
                  Inl e \<Rightarrow> Inl e
                | Inr modified \<Rightarrow>
                    (let size = st_size st;
                         mime_type = (case guess_type (name_of file_path) of
                                        None \<Rightarrow> ''application/octet-stream''
                                      | Some t \<Rightarrow> t)
                     in case relative_to file_path target_directory of
                          Inl e \<Rightarrow> Inl e
                        | Inr relative_path \<Rightarrow>
                            (let parent = butlast relative_path;
                                 sub = (if str_rel parent \<noteq> ''.''
                                        then replace (CHR 0x5C) (CHR ''/'') (str_rel parent)
                                        else [])
                             in Inr \<lparr>name = name_of file_path, type = mime_type,
                                     size_bytes = size, created_at = created,
                                     modified_at = modified, subdirectory = sub\<rparr>)))))"

text \<open>
  The loop over the walk. Other processes may change the file system while the handler
  runs: \<^verbatim>\<open>env p fs\<close> is the file system the handler sees when it reads the metadata of
  \<^verbatim>\<open>p\<close>, after \<^verbatim>\<open>is_file\<close> answered on \<^verbatim>\<open>fs\<close>. The walk itself is taken when the
  request starts. The state of the loop is the file system and \<^verbatim>\<open>files_info\<close>.
\<close>

fun list_loop ::
  "(posix_path \<Rightarrow> node \<Rightarrow> node) \<Rightarrow> (string \<Rightarrow> string option) \<Rightarrow> (int \<Rightarrow> exn + string)
     \<Rightarrow> posix_path \<Rightarrow> posix_path list \<Rightarrow> node \<times> file_info list
     \<Rightarrow> exn + node \<times> file_info list" where
  "list_loop env guess_type isoformat root [] s = Inr s"
| "list_loop env guess_type isoformat root (p # ps) (fs, files_info) =
     (case is_file fs p of
        Inl e \<Rightarrow> Inl e
      | Inr False \<Rightarrow> list_loop env guess_type isoformat root ps (fs, files_info)
      | Inr True \<Rightarrow>
          (case describe guess_type isoformat (env p fs) root p of
             Inl e \<Rightarrow> Inl e
           | Inr info \<Rightarrow>
               list_loop env guess_type isoformat root ps (env p fs, files_info @ [info])))"

text \<open>The body of the handler's \<^verbatim>\<open>try\<close>: the walk, then the loop.\<close>

definition list_files_body ::
  "(posix_path \<Rightarrow> node \<Rightarrow> node) \<Rightarrow> (string \<Rightarrow> string option) \<Rightarrow> (int \<Rightarrow> exn + string) \<Rightarrow> node
     \<Rightarrow> posix_path \<Rightarrow> exn + file_info list" where
  "list_files_body env guess_type isoformat fs target_directory =
     (case rglob fs target_directory of
        Inl e \<Rightarrow> Inl e
      | Inr walk \<Rightarrow>
          (case list_loop env guess_type isoformat target_directory walk (fs, []) of
             Inl e \<Rightarrow> Inl e
           | Inr s \<Rightarrow> Inr (snd s)))"

text \<open>\<^verbatim>\<open>list_files()\<close>: the value of the key \<^verbatim>\<open>files\<close>, or the \<^verbatim>\<open>HTTPException\<close>.\<close>

definition list_files ::
  "(posix_path \<Rightarrow> node \<Rightarrow> node) \<Rightarrow> (string \<Rightarrow> string option) \<Rightarrow> (int \<Rightarrow> exn + string) \<Rightarrow> node
     \<Rightarrow> posix_path \<Rightarrow> http_exception + file_info list" where
  "list_files env guess_type isoformat fs target_directory =
     (case list_files_body env guess_type isoformat fs target_directory of
        Inl e \<Rightarrow> Inl \<lparr>status_code = 500, detail = str_exn e\<rparr>
      | Inr files_info \<Rightarrow> Inr files_info)"

text \<open>No other process interferes.\<close>

definition quiet :: "posix_path \<Rightarrow> node \<Rightarrow> node" where
  "quiet p fs = fs"

text \<open>Removing the entry at a path: what a concurrent \<^verbatim>\<open>unlink\<close> does.\<close>

fun unlink :: "node \<Rightarrow> posix_path \<Rightarrow> node" where
  "unlink (Dir es) [c] = Dir (filter (\<lambda>e. fst e \<noteq> c) es)"
| "unlink (Dir es) (c # d # cs) =
     Dir (map (\<lambda>e. if fst e = c then (c, unlink (snd e) (d # cs)) else e) es)"
| "unlink n cs = n"

text \<open>The path a client requests for a listed record: the subdirectory, a slash and the
  name, or the name alone.\<close>

definition request_path :: "file_info \<Rightarrow> string" where
  "request_path r =
     (if subdirectory r = [] then name r else subdirectory r @ ''/'' @ name r)"

section \<open>The start-up function\<close>








text \<open>A path is free of links when the tree holds no link at any of its prefixes.\<close>

definition linkfree :: "(posix_path \<Rightarrow> string option) \<Rightarrow> posix_path \<Rightarrow> bool" where
  "linkfree rl p = list_all (\<lambda>k. rl (take (Suc k) p) = None) [0..<length p]"



section \<open>Well-formed names and paths\<close>

text \<open>A path is normal when it has no empty component, no \<^verbatim>\<open>.\<close> and no \<^verbatim>\<open>..\<close>.\<close>

definition normal :: "string list \<Rightarrow> bool" where
  "normal p = list_all (\<lambda>c. c \<noteq> [] \<and> c \<noteq> ''.'' \<and> c \<noteq> ''..'') p"

text \<open>A path is short when no component is longer than \<^verbatim>\<open>NAME_MAX\<close>.\<close>

definition short :: "string list \<Rightarrow> bool" where
  "short p = list_all (\<lambda>c. length c \<le> NAME_MAX) p"

text \<open>The names a POSIX directory can hold: not empty, not \<^verbatim>\<open>.\<close> or \<^verbatim>\<open>..\<close>, without a slash
  or a NUL, and of at most \<^verbatim>\<open>NAME_MAX\<close> bytes.\<close>

definition valid_name :: "string \<Rightarrow> bool" where
  "valid_name c =
     (c \<noteq> [] \<and> c \<noteq> ''.'' \<and> c \<noteq> ''..'' \<and> CHR ''/'' \<notin> set c \<and> CHR 0x00 \<notin> set c
      \<and> length c \<le> NAME_MAX)"

fun wf_names :: "node \<Rightarrow> bool" where
  "wf_names (Dir es) = list_all (\<lambda>e. valid_name (fst e) \<and> wf_names (snd e)) es"
| "wf_names (File b ct mt) = True"
| "wf_names (Symlink t) = True"

fun is_link :: "node \<Rightarrow> bool" where
  "is_link (Symlink t) = True"
| "is_link (File b ct mt) = False"
| "is_link (Dir es) = False"

text \<open>A path is real when the tree holds something other than a link there.\<close>

definition real_at :: "node \<Rightarrow> posix_path \<Rightarrow> bool" where
  "real_at fs q = (case lookup fs q of None \<Rightarrow> False | Some n \<Rightarrow> \<not> is_link n)"

section \<open>Example file systems\<close>

text \<open>A root \<^verbatim>\<open>/data/foo\<close> beside a directory \<^verbatim>\<open>/data/foobar\<close>, and \<^verbatim>\<open>/etc/passwd\<close>. The
  root holds two links that lead out of it.\<close>

definition fs_sibling :: node where
  "fs_sibling =
     Dir [(''data'',
            Dir [(''foo'', Dir [(''a.txt'', File ''hi'' 1 2),
                                (''lnk'', Symlink ''/etc/passwd''),
                                (''peek'', Symlink ''../foobar/secret.txt''),
                                (''sub'', Dir [(''dir'', Dir [(''name.txt'', File ''abc'' 5 6)])])]),
                 (''foobar'', Dir [(''secret.txt'', File ''s3cret'' 3 4)])]),
          (''etc'', Dir [(''passwd'', File ''root'' 0 0)])]"

text \<open>A root \<^verbatim>\<open>/srv/files\<close> with two files.\<close>

definition fs_docs :: node where
  "fs_docs =
     Dir [(''srv'', Dir [(''files'', Dir [(''report.pdf'', File ''%PDF'' 7 8),
                                          (''data.xyz123'', File ''xyz'' 9 9)])])]"

text \<open>
  Modelled from the spec: the MIME lookup utility (the table of \<^verbatim>\<open>mimetypes\<close> is not part
  of the module). A stand-in that knows two extensions and no other.
\<close>

definition guess_sample :: "string \<Rightarrow> string option" where
  "guess_sample n =
     (if suffix ''.pdf'' n then Some ''application/pdf''
      else if suffix ''.txt'' n then Some ''text/plain''
      else None)"

text \<open>A stand-in for the time formatting: right for UTC and the times 0 to 9, and it
  raises, as the library does, from the year 10000 on.\<close>

definition iso_sample :: "int \<Rightarrow> exn + string" where
  "iso_sample t =
     (if 253402300800 \<le> t then Inl (ValueError ''year 10000 is out of range'')
      else Inr (''1970-01-01T00:00:0'' @ [char_of (48 + t)]))"

text \<open>A stand-in for what \<^verbatim>\<open>resolve\<close> answers on a link loop.\<close>

definition loop_sample :: "posix_path \<Rightarrow> exn + posix_path" where
  "loop_sample p = Inl (RuntimeError (''Symlink loop from '' @ str_path p))"


text \<open>Another process removes one file between the handler's \<^verbatim>\<open>is_file\<close> and \<^verbatim>\<open>stat\<close>
  on it.\<close>

definition vanishing :: "posix_path \<Rightarrow> posix_path \<Rightarrow> node \<Rightarrow> node" where
  "vanishing gone p fs = (if p = gone then unlink fs p else fs)"

text \<open>Another process removes the file \<^verbatim>\<open>gone\<close> while the handler reads the metadata of
  \<^verbatim>\<open>trigger\<close>, an earlier path of the walk.\<close>

definition removing :: "posix_path \<Rightarrow> posix_path \<Rightarrow> posix_path \<Rightarrow> node \<Rightarrow> node" where
  "removing trigger gone p fs = (if p = trigger then unlink fs gone else fs)"

text \<open>A root \<^verbatim>\<open>/srv/files\<close> whose one directory has a backslash in its name.\<close>

definition fs_backslash :: node where
  "fs_backslash =
     Dir [(''srv'', Dir [(''files'',
            Dir [(''a'' @ [CHR 0x5C] @ ''b'', Dir [(''f.txt'', File ''data'' 1 1)])])])]"

section \<open>Facts about the platform\<close>

lemma split_on_not_Nil: "split_on sep s \<noteq> []"
  by (induction s) (auto split: list.splits)

lemma lookup_append:
  "lookup n (p @ q) = (case lookup n p of None \<Rightarrow> None | Some m \<Rightarrow> lookup m q)"
  by (induction n p rule: lookup.induct) (auto split: option.splits)

lemma lookup_snoc_Some:
  "lookup fs (p @ [c]) = Some n \<Longrightarrow> \<exists>es. lookup fs p = Some (Dir es) \<and> map_of es c = Some n"
  apply (simp add: lookup_append split: option.splits)
  subgoal for m by (cases m) (auto split: option.splits)
  done

lemma lookup_snoc: "lookup fs p = Some (Dir es) \<Longrightarrow> lookup fs (p @ [c]) = map_of es c"
  by (simp add: lookup_append split: option.splits)

lemma lookup_butlast:
  "lookup fs p = Some n \<Longrightarrow> p \<noteq> [] \<Longrightarrow> \<exists>es. lookup fs (butlast p) = Some (Dir es)"
  using lookup_snoc_Some [of fs "butlast p" "last p" n] by auto

lemma real_at_butlast: "lookup fs p = Some (Dir es) \<Longrightarrow> real_at fs (butlast p)"
  by (cases "p = []") (auto simp: real_at_def dest: lookup_butlast)

lemma readlink_prefix_None:
  "lookup fs (p @ c # q) = Some n \<Longrightarrow> readlink fs p = None"
  by (cases "lookup fs p") (auto simp: lookup_append readlink_def split: node.splits option.splits)

lemma readlink_real: "lookup fs p = Some n \<Longrightarrow> \<not> is_link n \<Longrightarrow> readlink fs p = None"
  by (cases n) (auto simp: readlink_def)

lemma readlink_take_None:
  assumes "lookup fs p = Some n" "\<not> is_link n" "k < length p"
  shows "readlink fs (take (Suc k) p) = None"
proof (cases "Suc k = length p")
  case True
  with assms show ?thesis by (simp add: readlink_real)
next
  case False
  with assms(3) have "drop (Suc k) p \<noteq> []" by simp
  then obtain c q where d: "drop (Suc k) p = c # q" by (cases "drop (Suc k) p") auto
  have "p = take (Suc k) p @ c # q" using d by (metis append_take_drop_id)
  with assms(1) show ?thesis by (metis readlink_prefix_None)
qed

lemma valid_name_normal: "list_all valid_name p \<Longrightarrow> normal p"
  by (auto simp: normal_def valid_name_def list_all_iff)

lemma valid_name_short: "list_all valid_name p \<Longrightarrow> short p"
  by (auto simp: short_def valid_name_def list_all_iff)

text \<open>Resolving a path whose components are real and normal leaves it as it is.\<close>

lemma joinrealpath_physical:
  "normal rest \<Longrightarrow> (\<And>k. k < length rest \<Longrightarrow> rl (cur @ take (Suc k) rest) = None)
   \<Longrightarrow> joinrealpath rl cur (rest @ rest2) = joinrealpath rl (cur @ rest) rest2"
proof (induction rest arbitrary: cur)
  case Nil
  then show ?case by simp
next
  case (Cons c rest)
  have c: "c \<noteq> []" "c \<noteq> ''.''" "c \<noteq> ''..''" and n: "normal rest"
    using Cons.prems(1) by (simp_all add: normal_def)
  have r0: "rl (cur @ [c]) = None" using Cons.prems(2) [of 0] by simp
  have "joinrealpath rl (cur @ [c]) (rest @ rest2) = joinrealpath rl ((cur @ [c]) @ rest) rest2"
  proof (rule Cons.IH [OF n])
    fix k assume "k < length rest"
    then show "rl ((cur @ [c]) @ take (Suc k) rest) = None"
      using Cons.prems(2) [of "Suc k"] by simp
  qed
  then show ?case using c r0 by (subst joinrealpath.simps) simp
qed

lemma joinrealpath_real:
  assumes "lookup fs p = Some n" "\<not> is_link n" "normal p"
  shows "joinrealpath (readlink fs) [] (p @ rest) = joinrealpath (readlink fs) p rest"
  using joinrealpath_physical [of p "readlink fs" "[]" rest] assms
  by (simp add: readlink_take_None)

lemma resolve_real:
  assumes "lookup fs p = Some n" "\<not> is_link n" "list_all valid_name p"
  shows "resolve on_loop fs p = Inr p"
proof -
  have "joinrealpath (readlink fs) [] (p @ []) = joinrealpath (readlink fs) p []"
    using assms by (intro joinrealpath_real) (auto simp: valid_name_normal)
  then have "joinrealpath (readlink fs) [] p = Some p" by (simp add: joinrealpath.simps)
  moreover have "\<not> list_ex (\<lambda>c. CHR 0x00 \<in> set c) p"
    using assms(3) by (auto simp: list_ex_iff list_all_iff valid_name_def)
  ultimately show ?thesis by (simp add: resolve_def)
qed

text \<open>Where the kernel's walk arrives, \<^verbatim>\<open>realpath\<close> arrives too; the place is real, and
  normal and short when the start was.\<close>

lemma namei_inv:
  "namei fs n cur rest = Inr q \<Longrightarrow>
     joinrealpath (readlink fs) cur rest = Some q \<and>
     (normal cur \<longrightarrow> normal q) \<and> (short cur \<longrightarrow> short q) \<and>
     (rest \<noteq> [] \<longrightarrow> real_at fs q)"
proof (induction fs n cur rest rule: namei.induct)
  case (1 fs n cur)
  then show ?case by (simp add: joinrealpath.simps)
next
  case (2 fs n cur c rest)
  from "2.prems" obtain es where es: "lookup fs cur = Some (Dir es)"
    by (auto simp: namei.simps(2) split: option.splits node.splits)
  consider (dot) "c = [] \<or> c = ''.''" | (dotdot) "c = ''..''"
    | (name) "c \<noteq> []" "c \<noteq> ''.''" "c \<noteq> ''..''" by blast
  then show ?case
  proof cases
    case dot
    with "2.prems" es have r: "namei fs n cur rest = Inr q" by (auto simp: namei.simps(2))
    from "2.IH"(1) [OF es refl dot r] have ih: "joinrealpath (readlink fs) cur rest = Some q"
      "normal cur \<longrightarrow> normal q" "short cur \<longrightarrow> short q" "rest \<noteq> [] \<longrightarrow> real_at fs q"
      by auto
    have "real_at fs q"
    proof (cases rest)
      case Nil
      with r have "q = cur" by simp
      with es show ?thesis by (simp add: real_at_def)
    qed (use ih in simp)
    with ih dot show ?thesis by (subst joinrealpath.simps) auto
  next
    case dotdot
    then have nd: "\<not> (c = [] \<or> c = ''.'')" by simp
    from "2.prems" es dotdot have r: "namei fs n (butlast cur) rest = Inr q"
      by (auto simp: namei.simps(2))
    from "2.IH"(2) [OF es refl nd dotdot r]
    have ih: "joinrealpath (readlink fs) (butlast cur) rest = Some q"
      "normal (butlast cur) \<longrightarrow> normal q" "short (butlast cur) \<longrightarrow> short q"
      "rest \<noteq> [] \<longrightarrow> real_at fs q" by auto
    have "real_at fs q"
    proof (cases rest)
      case Nil
      with r have "q = butlast cur" by simp
      with es show ?thesis by (simp add: real_at_butlast)
    qed (use ih in simp)
    moreover have "normal cur \<Longrightarrow> normal (butlast cur)" "short cur \<Longrightarrow> short (butlast cur)"
      by (auto simp: normal_def short_def list_all_iff dest: in_set_butlastD)
    ultimately show ?thesis using ih dotdot by (subst joinrealpath.simps) auto
  next
    case name
    then have nd: "\<not> (c = [] \<or> c = ''.'')" and ndd: "c \<noteq> ''..''" by simp_all
    from "2.prems" es name have sh: "\<not> NAME_MAX < length c"
      by (auto simp: namei.simps(2) split: if_splits)
    have lk: "lookup fs (cur @ [c]) = map_of es c" using es by (rule lookup_snoc)
    from "2.prems" es name sh obtain m where m: "map_of es c = Some m"
      by (auto simp: namei.simps(2) split: option.splits)
    show ?thesis
    proof (cases "is_link m")
      case True
      then obtain t where t: "m = Symlink t" by (cases m) auto
      let ?cur = "if is_abs t then [] else cur"
      let ?rest = "split_on CHR ''/'' t @ rest"
      from "2.prems" es name sh m t have lim: "\<not> MAXSYMLINKS \<le> n"
        and r: "namei fs (Suc n) ?cur ?rest = Inr q"
        by (auto simp: namei.simps(2) split: if_splits)
      have ne: "?rest \<noteq> []" by (simp add: split_on_not_Nil)
      from "2.IH"(5) [OF es refl nd ndd sh m t lim r] ne
      have ih: "joinrealpath (readlink fs) ?cur ?rest = Some q"
        "normal ?cur \<longrightarrow> normal q" "short ?cur \<longrightarrow> short q" "real_at fs q" by auto
      have "readlink fs (cur @ [c]) = Some t" using lk m t by (simp add: readlink_def)
      moreover have "normal cur \<Longrightarrow> normal ?cur" "short cur \<Longrightarrow> short ?cur"
        by (simp_all add: normal_def short_def)
      ultimately show ?thesis using ih name by (subst joinrealpath.simps) auto
    next
      case False
      from "2.prems" es name sh m False have r: "namei fs n (cur @ [c]) rest = Inr q"
        by (cases m) (auto simp: namei.simps(2))
      have "joinrealpath (readlink fs) (cur @ [c]) rest = Some q \<and>
            (normal (cur @ [c]) \<longrightarrow> normal q) \<and> (short (cur @ [c]) \<longrightarrow> short q) \<and>
            (rest \<noteq> [] \<longrightarrow> real_at fs q)"
      proof (cases m)
        case (File b ct mt)
        from "2.IH"(3) [OF es refl nd ndd sh m File r] show ?thesis .
      next
        case (Dir es')
        from "2.IH"(4) [OF es refl nd ndd sh m Dir r] show ?thesis .
      next
        case (Symlink t)
        with False show ?thesis by simp
      qed
      then have ih: "joinrealpath (readlink fs) (cur @ [c]) rest = Some q"
        "normal (cur @ [c]) \<longrightarrow> normal q" "short (cur @ [c]) \<longrightarrow> short q"
        "rest \<noteq> [] \<longrightarrow> real_at fs q" by auto
      have "real_at fs q"
      proof (cases rest)
        case Nil
        with r have "q = cur @ [c]" by simp
        with lk m False show ?thesis by (simp add: real_at_def)
      qed (use ih in simp)
      moreover have "readlink fs (cur @ [c]) = None" using lk m False
        by (cases m) (auto simp: readlink_def)
      moreover have "normal cur \<Longrightarrow> normal (cur @ [c])" "short cur \<Longrightarrow> short (cur @ [c])"
        using name sh by (simp_all add: normal_def short_def)
      ultimately show ?thesis using ih name by (subst joinrealpath.simps) auto
    qed
  qed
qed

text \<open>On a real, normal and short path the kernel's walk arrives at the path itself.\<close>

lemma namei_physical:
  "lookup fs (cur @ rest) = Some n \<Longrightarrow> \<not> is_link n \<Longrightarrow> normal rest \<Longrightarrow> short rest \<Longrightarrow>
   namei fs k cur rest = Inr (cur @ rest)"
proof (induction rest arbitrary: cur)
  case Nil
  then show ?case by simp
next
  case (Cons c rest)
  have c: "c \<noteq> []" "c \<noteq> ''.''" "c \<noteq> ''..''" and n: "normal rest"
    using Cons.prems(3) by (simp_all add: normal_def)
  have sc: "\<not> NAME_MAX < length c" and sr: "short rest"
    using Cons.prems(4) by (simp_all add: short_def)
  from Cons.prems(1) obtain d where d: "lookup fs cur = Some d" "lookup d (c # rest) = Some n"
    by (auto simp: lookup_append split: option.splits)
  then obtain es m where es: "d = Dir es" "map_of es c = Some m" "lookup m rest = Some n"
    by (cases d) (auto split: option.splits)
  have nl: "\<not> is_link m" using es(3) Cons.prems(2) by (cases m; cases rest) auto
  have "namei fs k (cur @ [c]) rest = Inr ((cur @ [c]) @ rest)"
    using Cons.prems by (intro Cons.IH [OF _ _ n sr]) auto
  then show ?case using c sc d es nl by (cases m) (simp_all add: namei.simps(2))
qed

lemma stat_real:
  assumes "lookup fs p = Some n" "\<not> is_link n" "normal p" "short p"
  shows "stat fs p = Inr n"
  using namei_physical [of fs "[]" p n] assms by (simp add: stat_def)

lemma prefix_str_path: "prefix root q \<Longrightarrow> prefix (str_path root) (str_path q)"
proof -
  assume "prefix root q"
  then obtain r where q: "q = root @ r" by (auto simp: prefix_def)
  show ?thesis
  proof (cases "root = []")
    case True
    then show ?thesis by (cases q) (auto simp: str_path_def)
  next
    case False
    then show ?thesis by (simp add: q str_path_def)
  qed
qed

section \<open>Paths free of links\<close>

lemma linkfree_iff: "linkfree rl p \<longleftrightarrow> (\<forall>k<length p. rl (take (Suc k) p) = None)"
  by (auto simp: linkfree_def list_all_iff)

lemma linkfree_Nil: "linkfree rl []"
  by (simp add: linkfree_iff)

lemma linkfree_snoc: "linkfree rl (p @ [c]) \<longleftrightarrow> linkfree rl p \<and> rl (p @ [c]) = None"
proof
  assume a: "linkfree rl (p @ [c])"
  have "rl (take (Suc k) p) = None" if "k < length p" for k
    using a that by (auto simp: linkfree_iff dest!: spec [of _ k])
  moreover have "rl (p @ [c]) = None"
    using a by (auto simp: linkfree_iff dest!: spec [of _ "length p"])
  ultimately show "linkfree rl p \<and> rl (p @ [c]) = None" by (simp add: linkfree_iff)
next
  assume a: "linkfree rl p \<and> rl (p @ [c]) = None"
  show "linkfree rl (p @ [c])"
    unfolding linkfree_iff
  proof (intro allI impI)
    fix k assume "k < length (p @ [c])"
    then consider "k < length p" | "k = length p" by fastforce
    then show "rl (take (Suc k) (p @ [c])) = None"
      using a by cases (auto simp: linkfree_iff)
  qed
qed

lemma linkfree_butlast: "linkfree rl p \<Longrightarrow> linkfree rl (butlast p)"
proof (cases "p = []")
  case False
  assume "linkfree rl p"
  then have "linkfree rl (butlast p @ [last p])" using False by simp
  then show ?thesis unfolding linkfree_snoc by simp
qed simp

lemma normal_butlast: "normal p \<Longrightarrow> normal (butlast p)"
  by (auto simp: normal_def list_all_iff dest: in_set_butlastD)

lemma normal_snoc: "normal (p @ [c]) \<longleftrightarrow> normal p \<and> c \<noteq> [] \<and> c \<noteq> ''.'' \<and> c \<noteq> ''..''"
  by (auto simp: normal_def)

lemma readlink_None_not_link:
  "readlink fs p = None \<Longrightarrow> lookup fs p = Some n \<Longrightarrow> \<not> is_link n"
  by (cases n) (auto simp: readlink_def)

lemma linkfree_last: "linkfree rl p \<Longrightarrow> p \<noteq> [] \<Longrightarrow> rl p = None"
  using linkfree_snoc [of rl "butlast p" "last p"] by simp

lemmas joinrealpath_induct = joinrealpath.raw_induct [rotated, consumes 1, case_names step]

text \<open>What \<^verbatim>\<open>realpath\<close> returns is normal and free of links.\<close>

lemma joinrealpath_inv:
  assumes "joinrealpath rl cur rest = Some q"
  shows "normal cur \<and> linkfree rl cur \<longrightarrow> normal q \<and> linkfree rl q"
  using assms
proof (induction rule: joinrealpath_induct)
  case (step jrp rl cur rest q)
  show ?case
  proof (cases rest)
    case Nil
    with step(2) show ?thesis by simp
  next
    case (Cons c rest')
    consider (dot) "c = [] \<or> c = ''.''" | (dotdot) "c = ''..''"
      | (name) "c \<noteq> []" "c \<noteq> ''.''" "c \<noteq> ''..''" by blast
    then show ?thesis
    proof cases
      case dot
      with step(2) Cons have "jrp rl cur rest' = Some q" by auto
      from step(1) [OF this] show ?thesis .
    next
      case dotdot
      with step(2) Cons have "jrp rl (butlast cur) rest' = Some q" by auto
      from step(1) [OF this] show ?thesis by (auto intro: normal_butlast linkfree_butlast)
    next
      case name
      show ?thesis
      proof (cases "rl (cur @ [c])")
        case None
        with step(2) Cons name have "jrp rl (cur @ [c]) rest' = Some q" by auto
        from step(1) [OF this] None name show ?thesis by (simp add: normal_snoc linkfree_snoc)
      next
        case (Some t)
        with step(2) Cons name have
          "jrp rl (if is_abs t then [] else cur) (split_on CHR ''/'' t @ rest') = Some q" by auto
        from step(1) [OF this] show ?thesis by (auto simp: normal_def linkfree_Nil)
      qed
    qed
  qed
qed

lemma realpath_inv:
  assumes "joinrealpath (readlink fs) [] p = Some q"
  shows "normal q \<and> linkfree (readlink fs) q"
  using joinrealpath_inv [OF assms] by (simp add: normal_def linkfree_Nil)

lemma resolve_Some:
  assumes "joinrealpath (readlink fs) [] p = Some q" "list_all valid_name p"
  shows "resolve on_loop fs p = Inr q"
proof -
  have "\<not> list_ex (\<lambda>c. CHR 0x00 \<in> set c) p"
    using assms(2) by (auto simp: list_ex_iff list_all_iff valid_name_def)
  with assms(1) show ?thesis by (simp add: resolve_def)
qed


text \<open>On a normal, short path free of links that the tree does not hold, the walk ends
  with one of the errors \<^verbatim>\<open>pathlib\<close> ignores.\<close>

lemma namei_missing:
  "lookup fs (cur @ rest) = None \<Longrightarrow> lookup fs cur = Some d \<Longrightarrow> normal rest \<Longrightarrow> short rest
   \<Longrightarrow> linkfree (readlink fs) (cur @ rest)
   \<Longrightarrow> namei fs k cur rest = Inl ENOENT \<or> namei fs k cur rest = Inl ENOTDIR"
proof (induction rest arbitrary: cur d)
  case Nil
  then show ?case by simp
next
  case (Cons c rest)
  have c: "c \<noteq> []" "c \<noteq> ''.''" "c \<noteq> ''..''" and n: "normal rest"
    using Cons.prems(3) by (simp_all add: normal_def)
  have sc: "\<not> NAME_MAX < length c" and sr: "short rest"
    using Cons.prems(4) by (simp_all add: short_def)
  show ?case
  proof (cases d)
    case (Dir es)
    have lk: "lookup fs (cur @ [c]) = map_of es c"
      using Cons.prems(2) Dir by (simp add: lookup_snoc)
    show ?thesis
    proof (cases "map_of es c")
      case None
      with Cons.prems(2) Dir c sc show ?thesis by (simp add: namei.simps(2))
    next
      case (Some m)
      have "\<forall>k<length (cur @ c # rest). readlink fs (take (Suc k) (cur @ c # rest)) = None"
        using Cons.prems(5) unfolding linkfree_iff .
      from this [rule_format, of "length cur"] have "readlink fs (cur @ [c]) = None" by simp
      with lk Some have nl: "\<not> is_link m" by (cases m) (auto simp: readlink_def)
      have "namei fs k (cur @ [c]) rest = Inl ENOENT \<or> namei fs k (cur @ [c]) rest = Inl ENOTDIR"
        using Cons.prems(1,5) lk Some by (intro Cons.IH [OF _ _ n sr]) auto
      with Cons.prems(2) Dir c sc Some nl show ?thesis
        by (cases m) (simp_all add: namei.simps(2))
    qed
  qed (use Cons.prems(2) in \<open>simp_all add: namei.simps(2)\<close>)
qed


section \<open>The download handler: theorems\<close>

lemma download_file_400:
  assumes "resolve on_loop fs (joinpath root file_path) = Inr q"
      and "\<not> prefix (str_path root) (str_path q)"
  shows "download_file on_loop fs root file_path =
         Inl \<lparr>status_code = 400, detail = caminho_invalido\<rparr>"
  using assms by (simp add: download_file_def)

lemma is_file_exists:
  "is_file fs q = Inr b \<Longrightarrow> exists fs q = Inr False \<or> exists fs q = Inr True"
  by (auto simp: is_file_def exists_def split: sum.splits)

lemma is_file_True_exists: "is_file fs q = Inr True \<Longrightarrow> exists fs q = Inr True"
  by (auto simp: is_file_def exists_def ignore_error_def
      split: sum.splits exn.splits if_splits node.splits)

lemma download_file_404:
  assumes "resolve on_loop fs (joinpath root file_path) = Inr q"
      and "prefix (str_path root) (str_path q)"
      and "exists fs q = Inr False \<or> is_file fs q = Inr False"
  shows "download_file on_loop fs root file_path =
         Inl \<lparr>status_code = 404, detail = arquivo_nao_encontrado\<rparr>"
proof (cases "exists fs q = Inr False")
  case True
  with assms(1,2) show ?thesis by (simp add: download_file_def)
next
  case False
  with assms(3) have f: "is_file fs q = Inr False" by simp
  with is_file_exists [OF f] False have "exists fs q = Inr True" by simp
  with assms(1,2) f show ?thesis by (simp add: download_file_def)
qed

lemma download_file_500:
  assumes "resolve on_loop fs (joinpath root file_path) = Inr q"
      and "prefix (str_path root) (str_path q)"
      and "exists fs q = Inl e"
  shows "download_file on_loop fs root file_path =
         Inl \<lparr>status_code = 500, detail = str_exn e\<rparr>"
  using assms by (simp add: download_file_def)

lemma download_file_200:
  assumes "resolve on_loop fs (joinpath root file_path) = Inr q"
      and "prefix (str_path root) (str_path q)"
      and "is_file fs q = Inr True"
  shows "download_file on_loop fs root file_path =
         Inr \<lparr>path = q, filename = name_of q, media_type = ''application/octet-stream''\<rparr>"
  using assms is_file_True_exists [OF assms(3)] by (simp add: download_file_def)

lemma download_file_served:
  assumes "download_file on_loop fs root file_path = Inr resp"
  shows "resolve on_loop fs (joinpath root file_path) = Inr (path resp) \<and>
         prefix (str_path root) (str_path (path resp)) \<and> is_file fs (path resp) = Inr True"
  using assms by (auto simp: download_file_def split: sum.splits if_splits bool.splits)

text \<open>
  C1. A request whose resolved path lies outside the root must be refused with 400. The
  handler compares strings: for the root \<^verbatim>\<open>/data/foo\<close> the request
  \<^verbatim>\<open>../foobar/secret.txt\<close> resolves to \<^verbatim>\<open>/data/foobar/secret.txt\<close>, which is not below the
  root and whose string begins with the root's string, and the handler answers with the
  file.
\<close>

theorem download_file_sibling_prefix_served:
  "resolve loop_sample fs_sibling (joinpath [''data'', ''foo''] ''../foobar/secret.txt'')
     = Inr [''data'', ''foobar'', ''secret.txt'']
   \<and> \<not> prefix [''data'', ''foo''] [''data'', ''foobar'', ''secret.txt'']
   \<and> download_file loop_sample fs_sibling [''data'', ''foo''] ''../foobar/secret.txt''
     = Inr \<lparr>path = [''data'', ''foobar'', ''secret.txt''], filename = ''secret.txt'',
            media_type = ''application/octet-stream''\<rparr>
   \<and> streamed fs_sibling
       \<lparr>path = [''data'', ''foobar'', ''secret.txt''], filename = ''secret.txt'',
          media_type = ''application/octet-stream''\<rparr> = Some ''s3cret''"
  by code_simp

text \<open>
  C9. A request that names a link inside the root whose target lies outside the root
  must be refused with 400. The path is resolved before it is checked, and the check
  compares strings: the link \<^verbatim>\<open>/data/foo/peek\<close> leads to \<^verbatim>\<open>/data/foobar/secret.txt\<close>,
  outside the root \<^verbatim>\<open>/data/foo\<close>, and the handler answers with the file.
\<close>

theorem download_file_link_to_sibling_served:
  "readlink fs_sibling [''data'', ''foo'', ''peek''] = Some ''../foobar/secret.txt''
   \<and> resolve loop_sample fs_sibling (joinpath [''data'', ''foo''] ''peek'')
       = Inr [''data'', ''foobar'', ''secret.txt'']
   \<and> \<not> prefix [''data'', ''foo''] [''data'', ''foobar'', ''secret.txt'']
   \<and> download_file loop_sample fs_sibling [''data'', ''foo''] ''peek''
       = Inr \<lparr>path = [''data'', ''foobar'', ''secret.txt''], filename = ''secret.txt'',
              media_type = ''application/octet-stream''\<rparr>
   \<and> streamed fs_sibling
       \<lparr>path = [''data'', ''foobar'', ''secret.txt''], filename = ''secret.txt'',
          media_type = ''application/octet-stream''\<rparr> = Some ''s3cret''"
  by code_simp


lemma not_a_file:
  assumes "normal q" "short q" "linkfree (readlink fs) q"
      and "\<And>b ct mt. lookup fs q \<noteq> Some (File b ct mt)"
  shows "exists fs q = Inr False \<or> is_file fs q = Inr False"
proof (cases "lookup fs q")
  case None
  have "lookup fs [] = Some fs" by simp
  from namei_missing [of fs "[]" q fs 0] None assms(1,2,3)
  have "namei fs 0 [] q = Inl ENOENT \<or> namei fs 0 [] q = Inl ENOTDIR" by simp
  then show ?thesis by (auto simp: exists_def stat_def ignore_error_def ignored_errno_def)
next
  case (Some n)
  have "stat fs q = Inr n"
  proof (cases "q = []")
    case True
    with Some show ?thesis by (simp add: stat_def)
  next
    case False
    from linkfree_last [OF assms(3) False] Some have "\<not> is_link n"
      by (cases n) (auto simp: readlink_def)
    with Some assms(1,2) show ?thesis by (simp add: stat_real)
  qed
  with assms(4) Some show ?thesis by (cases n) (auto simp: is_file_def)
qed

text \<open>
  C3, as the code has it. When the resolved path is below the root and \<^verbatim>\<open>exists\<close> or
  \<^verbatim>\<open>is_file\<close> answers \<^verbatim>\<open>False\<close>, the answer is 404 with the detail
  \<^verbatim>\<open>Arquivo nao encontrado\<close> (written with a tilde); this is so whenever the resolved
  path has no component longer than \<^verbatim>\<open>NAME_MAX\<close> and the tree holds no regular file
  there. When \<^verbatim>\<open>exists\<close> raises, the answer is 500 with the error's message. The
  containment check comes first: a resolved path whose string does not begin with the
  root's string is answered with 400 whatever the file system holds there.
\<close>

theorem download_file_inside_not_file:
  assumes "resolve on_loop fs (joinpath root file_path) = Inr q"
  shows "(prefix root q \<and> (exists fs q = Inr False \<or> is_file fs q = Inr False) \<longrightarrow>
            download_file on_loop fs root file_path =
              Inl \<lparr>status_code = 404, detail = arquivo_nao_encontrado\<rparr>)
       \<and> (prefix root q \<and> joinrealpath (readlink fs) [] (joinpath root file_path) = Some q
            \<and> short q \<and> (\<forall>b ct mt. lookup fs q \<noteq> Some (File b ct mt)) \<longrightarrow>
            download_file on_loop fs root file_path =
              Inl \<lparr>status_code = 404, detail = arquivo_nao_encontrado\<rparr>)
       \<and> (prefix root q \<longrightarrow>
            (\<forall>e. exists fs q = Inl e \<longrightarrow>
               download_file on_loop fs root file_path =
                 Inl \<lparr>status_code = 500, detail = str_exn e\<rparr>))
       \<and> (\<not> prefix (str_path root) (str_path q) \<longrightarrow>
            download_file on_loop fs root file_path =
              Inl \<lparr>status_code = 400, detail = caminho_invalido\<rparr>)"
proof -
  have p: "prefix (str_path root) (str_path q)" if "prefix root q"
    using that by (rule prefix_str_path)
  have a: "download_file on_loop fs root file_path =
              Inl \<lparr>status_code = 404, detail = arquivo_nao_encontrado\<rparr>"
    if "prefix root q" "exists fs q = Inr False \<or> is_file fs q = Inr False"
    using download_file_404 [OF assms p [OF that(1)] that(2)] .
  have b: "exists fs q = Inr False \<or> is_file fs q = Inr False"
    if "joinrealpath (readlink fs) [] (joinpath root file_path) = Some q" "short q"
      "\<forall>b ct mt. lookup fs q \<noteq> Some (File b ct mt)"
    using realpath_inv [OF that(1)] that(2,3) by (intro not_a_file) auto
  have c: "download_file on_loop fs root file_path = Inl \<lparr>status_code = 500, detail = str_exn e\<rparr>"
    if "prefix root q" "exists fs q = Inl e" for e
    using download_file_500 [OF assms p [OF that(1)] that(2)] .
  from a b c download_file_400 [OF assms] show ?thesis by blast
qed

theorem download_file_inside_not_file_witness:
  "resolve loop_sample fs_sibling (joinpath [''data'', ''foo''] ''sub'') = Inr [''data'', ''foo'', ''sub'']
   \<and> prefix [''data'', ''foo''] [''data'', ''foo'', ''sub'']
   \<and> is_file fs_sibling [''data'', ''foo'', ''sub''] = Inr False
   \<and> download_file loop_sample fs_sibling [''data'', ''foo''] ''sub''
       = Inl \<lparr>status_code = 404, detail = arquivo_nao_encontrado\<rparr>
   \<and> resolve loop_sample fs_sibling (joinpath [''data'', ''foo''] ''nothing.txt'')
       = Inr [''data'', ''foo'', ''nothing.txt'']
   \<and> exists fs_sibling [''data'', ''foo'', ''nothing.txt''] = Inr False
   \<and> download_file loop_sample fs_sibling [''data'', ''foo''] ''nothing.txt''
       = Inl \<lparr>status_code = 404, detail = arquivo_nao_encontrado\<rparr>
   \<and> resolve loop_sample fs_sibling (joinpath [''data'', ''foo''] ''../../etc/passwd'')
       = Inr [''etc'', ''passwd'']
   \<and> is_file fs_sibling [''etc'', ''passwd''] = Inr True
   \<and> \<not> prefix (str_path [''data'', ''foo'']) (str_path [''etc'', ''passwd''])
   \<and> download_file loop_sample fs_sibling [''data'', ''foo''] ''../../etc/passwd''
       = Inl \<lparr>status_code = 400, detail = caminho_invalido\<rparr>"
proof -
  have r1: "resolve loop_sample fs_sibling (joinpath [''data'', ''foo''] ''sub'')
       = Inr [''data'', ''foo'', ''sub'']"
    by code_simp
  have r2: "resolve loop_sample fs_sibling (joinpath [''data'', ''foo''] ''nothing.txt'')
       = Inr [''data'', ''foo'', ''nothing.txt'']"
    by code_simp
  have r3: "resolve loop_sample fs_sibling (joinpath [''data'', ''foo''] ''../../etc/passwd'')
       = Inr [''etc'', ''passwd'']"
    by code_simp
  have p1: "prefix [''data'', ''foo''] [''data'', ''foo'', ''sub'']" by simp
  have p2: "prefix [''data'', ''foo''] [''data'', ''foo'', ''nothing.txt'']" by simp
  have f1: "is_file fs_sibling [''data'', ''foo'', ''sub''] = Inr False" by code_simp
  have e2: "exists fs_sibling [''data'', ''foo'', ''nothing.txt''] = Inr False" by code_simp
  have f3: "is_file fs_sibling [''etc'', ''passwd''] = Inr True" by code_simp
  have p3: "\<not> prefix (str_path [''data'', ''foo'']) (str_path [''etc'', ''passwd''])"
    by code_simp
  show ?thesis
    using download_file_inside_not_file [OF r1] download_file_inside_not_file [OF r2]
      download_file_inside_not_file [OF r3] r1 r2 r3 p1 p2 p3 f1 e2 f3
    by blast
qed

text \<open>
  C3, as the claim states it, at a concrete input: the request is a name of 256 bytes.
  It resolves to a path below the root \<^verbatim>\<open>/data/foo\<close> that does not exist; \<^verbatim>\<open>exists\<close>
  raises \<^verbatim>\<open>OSError\<close> for the name that is too long, and the handler answers 500 where
  the claim has 404.
\<close>

theorem download_file_long_name_counterexample:
  "resolve loop_sample fs_sibling (joinpath [''data'', ''foo''] (replicate 256 CHR ''a''))
     = Inr [''data'', ''foo'', replicate 256 CHR ''a'']
   \<and> prefix [''data'', ''foo''] [''data'', ''foo'', replicate 256 CHR ''a'']
   \<and> lookup fs_sibling [''data'', ''foo'', replicate 256 CHR ''a''] = None
   \<and> download_file loop_sample fs_sibling [''data'', ''foo''] (replicate 256 CHR ''a'')
     = Inl \<lparr>status_code = 500,
            detail = str_exn (OSError ENAMETOOLONG
                                [''data'', ''foo'', replicate 256 CHR ''a''])\<rparr>"
  by code_simp

text \<open>
  C10. The empty request path names the root itself. When the root is a directory the
  request passes the containment check, fails the regular-file check and is answered
  with 404.
\<close>

theorem download_file_empty_path:
  assumes "lookup fs root = Some (Dir es)" and "list_all valid_name root"
  shows "resolve on_loop fs (joinpath root []) = Inr root
       \<and> prefix (str_path root) (str_path root)
       \<and> is_file fs root = Inr False
       \<and> download_file on_loop fs root [] =
           Inl \<lparr>status_code = 404, detail = arquivo_nao_encontrado\<rparr>"
proof -
  have j: "joinpath root [] = root" by (simp add: joinpath_def parts_def)
  have r: "resolve on_loop fs (joinpath root []) = Inr root"
    using assms by (simp add: j resolve_real)
  have "stat fs root = Inr (Dir es)"
    using assms by (simp add: stat_real valid_name_normal valid_name_short)
  then have f: "is_file fs root = Inr False" by (simp add: is_file_def)
  from download_file_404 [OF r] f show ?thesis using r by simp
qed

theorem download_file_empty_path_witness:
  "lookup fs_sibling [''data'', ''foo''] =
     Some (Dir [(''a.txt'', File ''hi'' 1 2), (''lnk'', Symlink ''/etc/passwd''),
                (''peek'', Symlink ''../foobar/secret.txt''),
                (''sub'', Dir [(''dir'', Dir [(''name.txt'', File ''abc'' 5 6)])])])
   \<and> list_all valid_name [''data'', ''foo'']
   \<and> download_file loop_sample fs_sibling [''data'', ''foo''] [] =
       Inl \<lparr>status_code = 404, detail = arquivo_nao_encontrado\<rparr>"
proof -
  have l: "lookup fs_sibling [''data'', ''foo''] =
     Some (Dir [(''a.txt'', File ''hi'' 1 2), (''lnk'', Symlink ''/etc/passwd''),
                (''peek'', Symlink ''../foobar/secret.txt''),
                (''sub'', Dir [(''dir'', Dir [(''name.txt'', File ''abc'' 5 6)])])])"
    by code_simp
  have v: "list_all valid_name [''data'', ''foo'']" by code_simp
  show ?thesis using download_file_empty_path [OF l v] l v by simp
qed


section \<open>Facts about path strings and the walk\<close>

lemma split_on_no_sep: "sep \<notin> set x \<Longrightarrow> split_on sep x = [x]"
  by (induction x) auto

lemma split_on_append_sep:
  "sep \<notin> set x \<Longrightarrow> split_on sep (x @ sep # ys) = x # split_on sep ys"
  by (induction x) auto

lemma split_on_join_sep:
  "list_all (\<lambda>c. sep \<notin> set c) xs \<Longrightarrow> xs \<noteq> [] \<Longrightarrow> split_on sep (join_sep [sep] xs) = xs"
  by (induction "[sep]" xs rule: join_sep.induct)
    (auto simp: split_on_no_sep split_on_append_sep)

lemma join_sep_snoc: "xs \<noteq> [] \<Longrightarrow> join_sep sep (xs @ [x]) = join_sep sep xs @ sep @ x"
  by (induction sep xs rule: join_sep.induct) auto

lemma join_sep_Nil_iff:
  "list_all (\<lambda>c. c \<noteq> []) xs \<Longrightarrow> join_sep sep xs = [] \<longleftrightarrow> xs = []"
  by (induction sep xs rule: join_sep.induct) auto

lemma set_join_sep: "set (join_sep sep xs) \<subseteq> set sep \<union> set (concat xs)"
  by (induction sep xs rule: join_sep.induct) auto

lemma join_sep_not_dot:
  assumes "list_all valid_name xs" "xs \<noteq> []"
  shows "join_sep ''/'' xs \<noteq> ''.''"
proof (cases xs)
  case Nil
  with assms show ?thesis by simp
next
  case (Cons x ys)
  show ?thesis
  proof (cases ys)
    case Nil
    with Cons assms show ?thesis by (simp add: valid_name_def)
  next
    case (Cons y zs)
    have "CHR ''/'' \<in> set (join_sep ''/'' xs)" using \<open>xs = x # ys\<close> Cons by simp
    then show ?thesis by auto
  qed
qed

lemma parts_join_sep:
  assumes "list_all valid_name xs" "xs \<noteq> []"
  shows "parts (join_sep ''/'' xs) = xs"
proof -
  have "list_all (\<lambda>c. CHR ''/'' \<notin> set c) xs"
    using assms(1) by (auto simp: list_all_iff valid_name_def)
  then have "split_on CHR ''/'' (join_sep ''/'' xs) = xs"
    using split_on_join_sep [of "CHR ''/''" xs] assms(2) by simp
  moreover have "filter (\<lambda>c. c \<noteq> [] \<and> c \<noteq> ''.'') xs = xs"
    using assms(1) by (auto simp: list_all_iff valid_name_def intro: filter_True)
  ultimately show ?thesis by (simp add: parts_def)
qed

lemma not_is_abs_join_sep:
  assumes "list_all valid_name xs" "xs \<noteq> []"
  shows "\<not> is_abs (join_sep ''/'' xs)"
proof -
  obtain x ys where xs: "xs = x # ys" using assms(2) by (cases xs) auto
  then have v: "valid_name x" using assms(1) by simp
  then obtain a as where x: "x = a # as" and a: "a \<noteq> CHR ''/''"
    by (cases x) (auto simp: valid_name_def)
  show ?thesis by (cases ys) (simp_all add: xs x a)
qed

lemma joinpath_join_sep:
  assumes "list_all valid_name xs" "xs \<noteq> []"
  shows "joinpath root (join_sep ''/'' xs) = root @ xs"
  using assms by (simp add: joinpath_def parts_join_sep not_is_abs_join_sep)

lemma replace_id: "a \<notin> set s \<Longrightarrow> replace a b s = s"
  by (induction s) (auto simp: replace_def)

lemma wf_names_lookup:
  "wf_names fs \<Longrightarrow> lookup fs p = Some n \<Longrightarrow> list_all valid_name p \<and> wf_names n"
proof (induction fs p rule: lookup.induct)
  case (2 es c cs)
  from "2.prems"(2) obtain m where m: "map_of es c = Some m" "lookup m cs = Some n"
    by (auto split: option.splits)
  then have "(c, m) \<in> set es" by (auto dest: map_of_SomeD)
  with "2.prems"(1) have "valid_name c" "wf_names m" by (auto simp: list_all_iff)
  with "2.IH" [OF m(1) _ m(2)] show ?case by simp
qed auto


lemma rglob_rel_valid:
  "rel \<in> set (rglob_rel d) \<Longrightarrow> wf_names d \<Longrightarrow> list_all valid_name rel \<and> rel \<noteq> []"
proof (induction d arbitrary: rel rule: rglob_rel.induct)
  case (1 es)
  from "1.prems"(1) consider (here) e where "e \<in> set es" "rel = [fst e]"
    | (below) e r where "e \<in> set es" "r \<in> set (rglob_rel (snd e))" "rel = fst e # r"
    by auto
  then show ?case
  proof cases
    case here
    with "1.prems"(2) show ?thesis by (auto simp: list_all_iff)
  next
    case below
    with "1.prems"(2) have "valid_name (fst e)" "wf_names (snd e)" by (auto simp: list_all_iff)
    with "1.IH" [OF below(1,2)] below(3) show ?thesis by simp
  qed
qed auto

lemma rglob_real:
  assumes "lookup fs root = Some (Dir es)" "normal root" "short root"
  shows "rglob fs root = Inr (map (\<lambda>r. root @ r) (rglob_rel (Dir es)))"
  using assms by (simp add: rglob_def is_dir_def stat_real)

lemma is_file_stat: "is_file fs p = Inr True \<Longrightarrow> \<exists>b ct mt. stat fs p = Inr (File b ct mt)"
  by (auto simp: is_file_def ignore_error_def split: sum.splits node.splits exn.splits if_splits)

lemma stat_File_lookup:
  assumes "stat fs p = Inr (File b ct mt)"
  shows "\<exists>q. namei fs 0 [] p = Inr q \<and> lookup fs q = Some (File b ct mt)"
  using assms by (auto simp: stat_def split: option.splits sum.splits)

lemma describe_File:
  assumes "stat fs p = Inr (File b ct mt)" and "p = root @ rel"
  shows "describe g fmt fs root p = Inr info \<longleftrightarrow>
     (\<exists>created modified. fmt ct = Inr created \<and> fmt mt = Inr modified \<and>
        info = \<lparr>name = name_of p,
          type = (case g (name_of p) of None \<Rightarrow> ''application/octet-stream'' | Some t \<Rightarrow> t),
          size_bytes = length b, created_at = created, modified_at = modified,
          subdirectory = (if str_rel (butlast rel) \<noteq> ''.''
                          then replace (CHR 0x5C) (CHR ''/'') (str_rel (butlast rel))
                          else [])\<rparr>)"
  using assms by (auto simp: describe_def relative_to_def split: sum.splits)

lemma subdirectory_valid:
  assumes "list_all valid_name parent"
  shows "(if str_rel parent \<noteq> ''.'' then replace (CHR 0x5C) (CHR ''/'') (str_rel parent) else [])
       = replace (CHR 0x5C) (CHR ''/'') (join_sep ''/'' parent)"
proof (cases "parent = []")
  case True
  then show ?thesis by (simp add: str_rel_def replace_def)
next
  case False
  with assms show ?thesis by (simp add: str_rel_def join_sep_not_dot)
qed

lemma quiet_apply: "quiet p fs = fs"
  by (simp add: quiet_def)

text \<open>With no other process at work, a loop that ends without an error has asked
  \<^verbatim>\<open>is_file\<close> of every path of the walk without an error, and returns one record for
  each regular file of the walk, in the walk's order.\<close>

lemma list_loop_still:
  assumes "\<And>p fs. env p fs = fs"
      and "list_loop env g fmt root ps (fs, acc) = Inr s"
  shows "fst s = fs \<and> (\<forall>p\<in>set ps. \<exists>b. is_file fs p = Inr b) \<and>
         (\<exists>infos. snd s = acc @ infos
            \<and> list_all2 (\<lambda>p info. describe g fmt fs root p = Inr info)
                 (filter (\<lambda>p. is_file fs p = Inr True) ps) infos)"
  using assms(2)
proof (induction ps arbitrary: acc)
  case Nil
  then show ?case by auto
next
  case (Cons p ps)
  from Cons.prems obtain b where b: "is_file fs p = Inr b" by (auto split: sum.splits)
  show ?case
  proof (cases b)
    case True
    have e: "env p fs = fs" by (rule assms(1))
    from b True Cons.prems obtain info where d: "describe g fmt fs root p = Inr info"
      and l: "list_loop env g fmt root ps (fs, acc @ [info]) = Inr s"
      unfolding list_loop.simps e by (auto split: sum.splits)
    from Cons.IH [OF l] obtain infos where
      "fst s = fs" "\<forall>p\<in>set ps. \<exists>b. is_file fs p = Inr b" "snd s = (acc @ [info]) @ infos"
      "list_all2 (\<lambda>p info. describe g fmt fs root p = Inr info)
         (filter (\<lambda>p. is_file fs p = Inr True) ps) infos"
      by blast
    with b True d show ?thesis by (intro conjI exI [of _ "info # infos"]) auto
  next
    case False
    with b Cons.prems have "list_loop env g fmt root ps (fs, acc) = Inr s" by simp
    from Cons.IH [OF this] b False show ?thesis by auto
  qed
qed

lemmas list_loop_quiet = list_loop_still [of quiet, OF quiet_apply]

lemma list_files_quiet:
  assumes "lookup fs root = Some (Dir es)" "normal root" "short root"
      and "list_files quiet g fmt fs root = Inr infos"
  shows "(\<forall>p\<in>set (map (\<lambda>r. root @ r) (rglob_rel (Dir es))). \<exists>b. is_file fs p = Inr b)
       \<and> list_all2 (\<lambda>p info. describe g fmt fs root p = Inr info)
            (filter (\<lambda>p. is_file fs p = Inr True) (map (\<lambda>r. root @ r) (rglob_rel (Dir es))))
            infos"
proof -
  let ?ps = "map (\<lambda>r. root @ r) (rglob_rel (Dir es))"
  from assms(4) obtain s where l: "list_loop quiet g fmt root ?ps (fs, []) = Inr s"
    and i: "infos = snd s"
    by (auto simp: list_files_def list_files_body_def rglob_real [OF assms(1,2,3)]
        split: sum.splits)
  from list_loop_quiet [OF l] i show ?thesis by auto
qed


section \<open>The listing handler: theorems\<close>

lemma list_loop_append:
  "list_loop env g fmt root (xs @ ys) s =
     (case list_loop env g fmt root xs s of
        Inl e \<Rightarrow> Inl e
      | Inr s' \<Rightarrow> list_loop env g fmt root ys s')"
proof (induction xs arbitrary: s)
  case Nil
  then show ?case by simp
next
  case (Cons x xs)
  obtain fs acc where s: "s = (fs, acc)" by (cases s)
  show ?case unfolding s by (simp add: Cons.IH split: sum.splits bool.splits)
qed

lemma list_loop_invariant:
  assumes "list_loop env g fmt root ps s = Inr s'"
      and "\<And>r. r \<in> set (snd s) \<Longrightarrow> P r"
      and "\<And>fs p info. describe g fmt fs root p = Inr info \<Longrightarrow> P info"
      and "r \<in> set (snd s')"
  shows "P r"
  using assms(1,2,4)
proof (induction ps arbitrary: s)
  case Nil
  then show ?case by auto
next
  case (Cons p ps)
  obtain fs acc where s: "s = (fs, acc)" by (cases s)
  from Cons.prems(1) s obtain b where b: "is_file fs p = Inr b" by (auto split: sum.splits)
  show ?case
  proof (cases b)
    case True
    with b Cons.prems(1) s obtain info where
      d: "describe g fmt (env p fs) root p = Inr info" and
      l: "list_loop env g fmt root ps (env p fs, acc @ [info]) = Inr s'"
      by (auto split: sum.splits)
    show ?thesis
    proof (rule Cons.IH [OF l _ Cons.prems(3)])
      fix r' assume "r' \<in> set (snd (env p fs, acc @ [info]))"
      then show "P r'" using Cons.prems(2) s assms(3) [OF d] by auto
    qed
  next
    case False
    with b Cons.prems(1) s have l: "list_loop env g fmt root ps (fs, acc) = Inr s'" by simp
    show ?thesis by (rule Cons.IH [OF l _ Cons.prems(3)]) (use Cons.prems(2) s in auto)
  qed
qed

lemma describe_type:
  assumes "describe g fmt fs root p = Inr info"
  shows "type info = (case g (name info) of None \<Rightarrow> ''application/octet-stream'' | Some t \<Rightarrow> t)"
  using assms by (auto simp: describe_def Let_def split: sum.splits)

text \<open>
  C2, as the code has it. When a file of the walk is gone after \<^verbatim>\<open>is_file\<close> answered
  \<^verbatim>\<open>True\<close> for it and before its metadata is read, \<^verbatim>\<open>stat\<close> raises inside the handler's
  \<^verbatim>\<open>try\<close>, the loop ends there and the handler answers 500 with the error's message; no
  record is returned, whatever the loop had collected. When the file is gone already as
  \<^verbatim>\<open>is_file\<close> is asked, the answer is \<^verbatim>\<open>False\<close>, the entry is skipped and the listing
  goes on with the paths after it.
\<close>

theorem list_files_race_aborts:
  assumes "rglob fs root = Inr (pre @ p # post)"
      and "list_loop env g fmt root pre (fs, []) = Inr (fs1, acc)"
  shows "(is_file fs1 p = Inr True \<and> stat (env p fs1) p = Inl e \<longrightarrow>
            list_files env g fmt fs root = Inl \<lparr>status_code = 500, detail = str_exn e\<rparr>)
       \<and> (is_file fs1 p = Inr False \<longrightarrow>
            list_files_body env g fmt fs root =
              (case list_loop env g fmt root post (fs1, acc) of
                 Inl x \<Rightarrow> Inl x
               | Inr s \<Rightarrow> Inr (snd s)))"
proof -
  have a: "list_loop env g fmt root (pre @ p # post) (fs, [])
             = list_loop env g fmt root (p # post) (fs1, acc)"
    using assms(2) by (simp add: list_loop_append)
  have "list_files env g fmt fs root = Inl \<lparr>status_code = 500, detail = str_exn e\<rparr>"
    if "is_file fs1 p = Inr True" "stat (env p fs1) p = Inl e"
  proof -
    have "list_loop env g fmt root (p # post) (fs1, acc) = Inl e"
      using that by (simp add: describe_def)
    with a show ?thesis by (simp add: list_files_def list_files_body_def assms(1))
  qed
  moreover have "list_files_body env g fmt fs root =
              (case list_loop env g fmt root post (fs1, acc) of
                 Inl x \<Rightarrow> Inl x
               | Inr s \<Rightarrow> Inr (snd s))"
    if "is_file fs1 p = Inr False"
    using that a by (simp add: list_files_body_def assms(1))
  ultimately show ?thesis by blast
qed

theorem list_files_race_aborts_witness:
  "rglob fs_sibling [''data'', ''foo''] =
     Inr ([[''data'', ''foo'', ''a.txt''], [''data'', ''foo'', ''lnk''],
           [''data'', ''foo'', ''peek''], [''data'', ''foo'', ''sub''],
           [''data'', ''foo'', ''sub'', ''dir'']]
          @ [''data'', ''foo'', ''sub'', ''dir'', ''name.txt''] # [])
   \<and> is_file fs_sibling [''data'', ''foo'', ''sub'', ''dir'', ''name.txt''] = Inr True
   \<and> stat (vanishing [''data'', ''foo'', ''sub'', ''dir'', ''name.txt'']
              [''data'', ''foo'', ''sub'', ''dir'', ''name.txt''] fs_sibling)
          [''data'', ''foo'', ''sub'', ''dir'', ''name.txt'']
       = Inl (OSError ENOENT [''data'', ''foo'', ''sub'', ''dir'', ''name.txt''])
   \<and> list_files (vanishing [''data'', ''foo'', ''sub'', ''dir'', ''name.txt'']) guess_sample
         iso_sample fs_sibling [''data'', ''foo'']
       = Inl \<lparr>status_code = 500,
              detail = str_exn (OSError ENOENT [''data'', ''foo'', ''sub'', ''dir'', ''name.txt''])\<rparr>
   \<and> is_file (unlink fs_sibling [''data'', ''foo'', ''sub'', ''dir'', ''name.txt''])
         [''data'', ''foo'', ''sub'', ''dir'', ''name.txt''] = Inr False
   \<and> list_files_body
         (removing [''data'', ''foo'', ''a.txt''] [''data'', ''foo'', ''sub'', ''dir'', ''name.txt''])
         guess_sample iso_sample fs_sibling [''data'', ''foo'']
       = Inr [\<lparr>name = ''a.txt'', type = ''text/plain'', size_bytes = 2,
                created_at = ''1970-01-01T00:00:01'', modified_at = ''1970-01-01T00:00:02'',
                subdirectory = []\<rparr>,
              \<lparr>name = ''lnk'', type = ''application/octet-stream'', size_bytes = 4,
                created_at = ''1970-01-01T00:00:00'', modified_at = ''1970-01-01T00:00:00'',
                subdirectory = []\<rparr>,
              \<lparr>name = ''peek'', type = ''application/octet-stream'', size_bytes = 6,
                created_at = ''1970-01-01T00:00:03'', modified_at = ''1970-01-01T00:00:04'',
                subdirectory = []\<rparr>]"
proof -
  let ?root = "[''data'', ''foo'']"
  let ?a = "[''data'', ''foo'', ''a.txt'']"
  let ?p = "[''data'', ''foo'', ''sub'', ''dir'', ''name.txt'']"
  let ?pre = "[[''data'', ''foo'', ''a.txt''], [''data'', ''foo'', ''lnk''],
           [''data'', ''foo'', ''peek''], [''data'', ''foo'', ''sub''],
           [''data'', ''foo'', ''sub'', ''dir'']]"
  let ?acc = "[\<lparr>name = ''a.txt'', type = ''text/plain'', size_bytes = 2,
                created_at = ''1970-01-01T00:00:01'', modified_at = ''1970-01-01T00:00:02'',
                subdirectory = []\<rparr>,
              \<lparr>name = ''lnk'', type = ''application/octet-stream'', size_bytes = 4,
                created_at = ''1970-01-01T00:00:00'', modified_at = ''1970-01-01T00:00:00'',
                subdirectory = []\<rparr>,
              \<lparr>name = ''peek'', type = ''application/octet-stream'', size_bytes = 6,
                created_at = ''1970-01-01T00:00:03'', modified_at = ''1970-01-01T00:00:04'',
                subdirectory = []\<rparr>]"
  have w: "rglob fs_sibling ?root = Inr (?pre @ ?p # [])" by code_simp
  have l1: "list_loop (vanishing ?p) guess_sample iso_sample ?root ?pre (fs_sibling, [])
              = Inr (fs_sibling, ?acc)"
    by code_simp
  have f1: "is_file fs_sibling ?p = Inr True" by code_simp
  have s1: "stat (vanishing ?p ?p fs_sibling) ?p = Inl (OSError ENOENT ?p)" by code_simp
  have l2: "list_loop (removing ?a ?p) guess_sample iso_sample ?root ?pre (fs_sibling, [])
              = Inr (unlink fs_sibling ?p, ?acc)"
    by code_simp
  have f2: "is_file (unlink fs_sibling ?p) ?p = Inr False" by code_simp
  from list_files_race_aborts [OF w l1, of "OSError ENOENT ?p"] f1 s1
  have r1: "list_files (vanishing ?p) guess_sample iso_sample fs_sibling ?root
       = Inl \<lparr>status_code = 500, detail = str_exn (OSError ENOENT ?p)\<rparr>"
    by blast
  from list_files_race_aborts [OF w l2, of undefined] f2
  have r2: "list_files_body (removing ?a ?p) guess_sample iso_sample fs_sibling ?root = Inr ?acc"
    by simp
  show ?thesis using w f1 s1 r1 f2 r2 by blast
qed

text \<open>
  C2, as the claim states it, at a concrete input: \<^verbatim>\<open>/data/foo/a.txt\<close>, the first file of
  the walk, is removed after \<^verbatim>\<open>is_file\<close> answered for it. The claim has the entry skipped
  and the other files listed; the handler answers 500 and lists nothing.
\<close>

theorem list_files_race_counterexample:
  "is_file fs_sibling [''data'', ''foo'', ''a.txt''] = Inr True
   \<and> list_files (vanishing [''data'', ''foo'', ''a.txt'']) guess_sample iso_sample fs_sibling
        [''data'', ''foo'']
     = Inl \<lparr>status_code = 500,
            detail = ''[Errno 2] No such file or directory: '' @ [CHR 0x27] @ ''/data/foo/a.txt''
                     @ [CHR 0x27]\<rparr>"
  by code_simp

text \<open>
  C6. The \<^verbatim>\<open>type\<close> of a listed record is what the lookup gives for the record's name,
  and \<^verbatim>\<open>application/octet-stream\<close> when the lookup knows no type: with a lookup that
  maps \<^verbatim>\<open>report.pdf\<close> to \<^verbatim>\<open>application/pdf\<close> the record says so, and a name the lookup
  does not know, such as \<^verbatim>\<open>data.xyz123\<close>, gets the fallback.
\<close>

theorem list_files_mime_type:
  assumes "list_files env guess_type isoformat fs root = Inr infos"
      and "r \<in> set infos"
  shows "(guess_type (name r) = None \<longrightarrow> type r = ''application/octet-stream'')
       \<and> (\<forall>t. guess_type (name r) = Some t \<longrightarrow> type r = t)"
proof -
  from assms(1) obtain walk s' where
    l: "list_loop env guess_type isoformat root walk (fs, []) = Inr s'"
    and i: "infos = snd s'"
    by (auto simp: list_files_def list_files_body_def split: sum.splits)
  have "type r = (case guess_type (name r) of None \<Rightarrow> ''application/octet-stream''
                  | Some t \<Rightarrow> t)"
    by (rule list_loop_invariant [OF l _ describe_type]) (use assms(2) i in auto)
  then show ?thesis by (auto split: option.splits)
qed

theorem list_files_mime_type_witness:
  "list_files quiet guess_sample iso_sample fs_docs [''srv'', ''files''] =
     Inr [\<lparr>name = ''report.pdf'', type = ''application/pdf'', size_bytes = 4,
            created_at = ''1970-01-01T00:00:07'', modified_at = ''1970-01-01T00:00:08'',
            subdirectory = []\<rparr>,
          \<lparr>name = ''data.xyz123'', type = ''application/octet-stream'', size_bytes = 3,
            created_at = ''1970-01-01T00:00:09'', modified_at = ''1970-01-01T00:00:09'',
            subdirectory = []\<rparr>]
   \<and> guess_sample ''report.pdf'' = Some ''application/pdf''
   \<and> guess_sample ''data.xyz123'' = None"
proof -
  let ?r1 = "\<lparr>name = ''report.pdf'', type = ''application/pdf'', size_bytes = 4,
            created_at = ''1970-01-01T00:00:07'', modified_at = ''1970-01-01T00:00:08'',
            subdirectory = []\<rparr>"
  let ?r2 = "\<lparr>name = ''data.xyz123'', type = ''application/octet-stream'', size_bytes = 3,
            created_at = ''1970-01-01T00:00:09'', modified_at = ''1970-01-01T00:00:09'',
            subdirectory = []\<rparr>"
  have l: "list_files quiet guess_sample iso_sample fs_docs [''srv'', ''files''] = Inr [?r1, ?r2]"
    by code_simp
  have g1: "guess_sample ''report.pdf'' = Some ''application/pdf''" by code_simp
  have g2: "guess_sample ''data.xyz123'' = None" by code_simp
  have m1: "?r1 \<in> set [?r1, ?r2]" and m2: "?r2 \<in> set [?r1, ?r2]" by simp_all
  from list_files_mime_type [OF l m1] list_files_mime_type [OF l m2]
  have "type ?r1 = ''application/pdf''" "type ?r2 = ''application/octet-stream''"
    using g1 g2 by simp_all
  then show ?thesis using l g1 g2 by simp
qed

text \<open>
  C7, as the code has it. An exception raised while the listing is built is answered
  with 500 and the exception's message as the detail. A root that is missing, or is not
  a directory, raises nothing: the walk is empty and the handler returns the empty
  list.
\<close>

theorem list_files_failure:
  "((rglob fs root = Inl e
      \<or> (\<exists>walk. rglob fs root = Inr walk \<and> list_loop env g fmt root walk (fs, []) = Inl e)) \<longrightarrow>
      list_files env g fmt fs root = Inl \<lparr>status_code = 500, detail = str_exn e\<rparr>)
   \<and> (is_dir fs root = Inr False \<longrightarrow> list_files env g fmt fs root = Inr [])"
proof -
  have "rglob fs root = Inr []" if "is_dir fs root = Inr False"
    using that by (simp add: rglob_def)
  then show ?thesis by (auto simp: list_files_def list_files_body_def)
qed

theorem list_files_failure_witness:
  "rglob fs_sibling [''data'', ''foo''] =
     Inr [[''data'', ''foo'', ''a.txt''], [''data'', ''foo'', ''lnk''],
          [''data'', ''foo'', ''peek''], [''data'', ''foo'', ''sub''],
          [''data'', ''foo'', ''sub'', ''dir''],
          [''data'', ''foo'', ''sub'', ''dir'', ''name.txt'']]
   \<and> list_loop (vanishing [''data'', ''foo'', ''a.txt'']) guess_sample iso_sample [''data'', ''foo'']
       [[''data'', ''foo'', ''a.txt''], [''data'', ''foo'', ''lnk''],
        [''data'', ''foo'', ''peek''], [''data'', ''foo'', ''sub''],
        [''data'', ''foo'', ''sub'', ''dir''],
        [''data'', ''foo'', ''sub'', ''dir'', ''name.txt'']] (fs_sibling, [])
     = Inl (OSError ENOENT [''data'', ''foo'', ''a.txt''])
   \<and> list_files (vanishing [''data'', ''foo'', ''a.txt'']) guess_sample iso_sample fs_sibling
        [''data'', ''foo'']
     = Inl \<lparr>status_code = 500, detail = str_exn (OSError ENOENT [''data'', ''foo'', ''a.txt''])\<rparr>
   \<and> is_dir fs_docs [''srv'', ''gone''] = Inr False
   \<and> list_files quiet guess_sample iso_sample fs_docs [''srv'', ''gone''] = Inr []"
proof -
  let ?walk = "[[''data'', ''foo'', ''a.txt''], [''data'', ''foo'', ''lnk''],
          [''data'', ''foo'', ''peek''], [''data'', ''foo'', ''sub''],
          [''data'', ''foo'', ''sub'', ''dir''],
          [''data'', ''foo'', ''sub'', ''dir'', ''name.txt'']]"
  have w: "rglob fs_sibling [''data'', ''foo''] = Inr ?walk" by code_simp
  have l: "list_loop (vanishing [''data'', ''foo'', ''a.txt'']) guess_sample iso_sample
      [''data'', ''foo''] ?walk (fs_sibling, [])
     = Inl (OSError ENOENT [''data'', ''foo'', ''a.txt''])"
    by code_simp
  have d: "is_dir fs_docs [''srv'', ''gone''] = Inr False" by code_simp
  from list_files_failure [of fs_sibling "[''data'', ''foo'']"
      "OSError ENOENT [''data'', ''foo'', ''a.txt'']" "vanishing [''data'', ''foo'', ''a.txt'']"
      guess_sample iso_sample] w l
  have r1: "list_files (vanishing [''data'', ''foo'', ''a.txt'']) guess_sample iso_sample fs_sibling
        [''data'', ''foo'']
     = Inl \<lparr>status_code = 500, detail = str_exn (OSError ENOENT [''data'', ''foo'', ''a.txt''])\<rparr>"
    by blast
  from list_files_failure [of fs_docs "[''srv'', ''gone'']" undefined quiet guess_sample
      iso_sample] d
  have r2: "list_files quiet guess_sample iso_sample fs_docs [''srv'', ''gone''] = Inr []"
    by blast
  show ?thesis using w l r1 d r2 by blast
qed

text \<open>
  C7, as the claim states it, at a concrete input: the root \<^verbatim>\<open>/srv/gone\<close> does not exist.
  The claim has the handler answer 500; it returns the empty list.
\<close>

theorem list_files_missing_root_counterexample:
  "exists fs_docs [''srv'', ''gone''] = Inr False
   \<and> list_files quiet guess_sample iso_sample fs_docs [''srv'', ''gone''] = Inr []"
  by code_simp

section \<open>Listing and download together\<close>


lemma list_all2_right: "list_all2 P xs ys \<Longrightarrow> y \<in> set ys \<Longrightarrow> \<exists>x\<in>set xs. P x y"
  by (induction rule: list_all2_induct) auto




lemma request_path_join:
  assumes "list_all valid_name rel" "rel \<noteq> []"
      and "name r = last rel" "subdirectory r = join_sep ''/'' (butlast rel)"
  shows "request_path r = join_sep ''/'' rel"
proof (cases "butlast rel = []")
  case True
  then have "rel = [last rel]" using assms(2) by (metis append_butlast_last_id append_Nil)
  then have "join_sep ''/'' rel = last rel" by (metis join_sep.simps(2))
  with True assms(3,4) show ?thesis by (simp add: request_path_def)
next
  case False
  have "list_all (\<lambda>c. c \<noteq> []) (butlast rel)"
    using assms(1) by (auto simp: list_all_iff valid_name_def dest: in_set_butlastD)
  then have ne: "join_sep ''/'' (butlast rel) \<noteq> []" using False by (simp add: join_sep_Nil_iff)
  have "join_sep ''/'' (butlast rel @ [last rel]) = join_sep ''/'' (butlast rel) @ ''/'' @ last rel"
    using False by (rule join_sep_snoc)
  then have "join_sep ''/'' rel = join_sep ''/'' (butlast rel) @ ''/'' @ last rel"
    using assms(2) by simp
  with ne assms(3,4) show ?thesis by (simp add: request_path_def)
qed

lemma resolve_namei:
  assumes "namei fs 0 [] p = Inr q" and "list_all valid_name p"
  shows "resolve on_loop fs p = Inr q"
  using namei_inv [OF assms(1)] assms(2) by (simp add: resolve_Some)

lemma namei_normal: "namei fs 0 [] p = Inr q \<Longrightarrow> normal q \<and> short q"
  using namei_inv [of fs 0 "[]" p q] by (simp add: normal_def short_def)

text \<open>
  C4, as the code has it. Every listed record describes a path \<^verbatim>\<open>p\<close> of the walk that
  leads to a regular file at a resolved place \<^verbatim>\<open>q\<close>. When the string of \<^verbatim>\<open>q\<close> begins
  with the root's string and no directory name between the root and \<^verbatim>\<open>p\<close> has a
  backslash, the request for the record's subdirectory, a slash and its name (the name
  alone for an empty subdirectory) is answered with the file at \<^verbatim>\<open>q\<close>, and the bytes
  streamed are as many as the record's \<^verbatim>\<open>size_bytes\<close>.
\<close>

theorem list_download_roundtrip:
  assumes "wf_names fs"
      and "lookup fs root = Some (Dir es)"
      and "list_files quiet g fmt fs root = Inr infos"
  shows "(\<forall>r\<in>set infos. \<exists>p q. (\<exists>ps. rglob fs root = Inr ps \<and> p \<in> set ps)
             \<and> is_file fs p = Inr True
             \<and> describe g fmt fs root p = Inr r \<and> namei fs 0 [] p = Inr q)
       \<and> (\<forall>p q r. (\<exists>ps. rglob fs root = Inr ps \<and> p \<in> set ps) \<and> is_file fs p = Inr True
             \<and> describe g fmt fs root p = Inr r \<and> namei fs 0 [] p = Inr q
             \<and> prefix (str_path root) (str_path q)
             \<and> list_all (\<lambda>c. CHR 0x5C \<notin> set c) (butlast (drop (length root) p))
           \<longrightarrow> download_file on_loop fs root (request_path r)
                 = Inr \<lparr>path = q, filename = name_of q,
                        media_type = ''application/octet-stream''\<rparr>
               \<and> (\<exists>b. streamed fs \<lparr>path = q, filename = name_of q,
                                    media_type = ''application/octet-stream''\<rparr> = Some b
                      \<and> length b = size_bytes r))"
proof -
  let ?walk = "map (\<lambda>r. root @ r) (rglob_rel (Dir es))"
  have vr: "list_all valid_name root" and wd: "wf_names (Dir es)"
    using wf_names_lookup [OF assms(1,2)] by auto
  have nr: "normal root" using vr by (rule valid_name_normal)
  have sr: "short root" using vr by (rule valid_name_short)
  have walk: "rglob fs root = Inr ?walk"
    using assms(2) nr sr by (rule rglob_real)
  have first: "\<exists>p q. (\<exists>ps. rglob fs root = Inr ps \<and> p \<in> set ps) \<and> is_file fs p = Inr True
             \<and> describe g fmt fs root p = Inr r \<and> namei fs 0 [] p = Inr q"
    if r: "r \<in> set infos" for r
  proof -
    from list_files_quiet [OF assms(2) nr sr assms(3)] have
      "list_all2 (\<lambda>p info. describe g fmt fs root p = Inr info)
          (filter (\<lambda>p. is_file fs p = Inr True) ?walk) infos"
      by blast
    from list_all2_right [OF this r] obtain p where
      p: "p \<in> set ?walk" "is_file fs p = Inr True" "describe g fmt fs root p = Inr r"
      by (auto simp del: rglob_rel.simps)
    from is_file_stat [OF p(2)] stat_File_lookup obtain q where "namei fs 0 [] p = Inr q"
      by blast
    with p walk show ?thesis by blast
  qed
  have second: "download_file on_loop fs root (request_path r)
                 = Inr \<lparr>path = q, filename = name_of q,
                        media_type = ''application/octet-stream''\<rparr>
               \<and> (\<exists>b. streamed fs \<lparr>path = q, filename = name_of q,
                                    media_type = ''application/octet-stream''\<rparr> = Some b
                      \<and> length b = size_bytes r)"
    if p: "\<exists>ps. rglob fs root = Inr ps \<and> p \<in> set ps" and f: "is_file fs p = Inr True"
      and d: "describe g fmt fs root p = Inr r" and q: "namei fs 0 [] p = Inr q"
      and pre: "prefix (str_path root) (str_path q)"
      and nb: "list_all (\<lambda>c. CHR 0x5C \<notin> set c) (butlast (drop (length root) p))"
    for p q r
  proof -
    from p walk have "p \<in> set ?walk" by auto
    then obtain rel where rel: "p = root @ rel" "rel \<in> set (rglob_rel (Dir es))"
      by (auto simp del: rglob_rel.simps)
    from rglob_rel_valid [OF rel(2) wd] have v: "list_all valid_name rel" "rel \<noteq> []" by auto
    have vb: "list_all valid_name (butlast rel)"
      using v(1) by (auto simp: list_all_iff dest: in_set_butlastD)
    from is_file_stat [OF f] obtain b ct mt where st: "stat fs p = Inr (File b ct mt)" by blast
    from stat_File_lookup [OF st] q have lq: "lookup fs q = Some (File b ct mt)" by auto
    have nb': "list_all (\<lambda>c. CHR 0x5C \<notin> set c) (butlast rel)" using nb rel(1) by simp
    have "CHR 0x5C \<notin> set (join_sep ''/'' (butlast rel))"
      using nb' set_join_sep [of "''/''" "butlast rel"] by (auto simp: list_all_iff)
    then have sub: "replace (CHR 0x5C) (CHR ''/'') (join_sep ''/'' (butlast rel))
                  = join_sep ''/'' (butlast rel)"
      by (rule replace_id)
    have r: "name r = last rel" "subdirectory r = join_sep ''/'' (butlast rel)"
      "size_bytes r = length b"
      using d describe_File [OF st rel(1), of g fmt r] subdirectory_valid [OF vb] sub v(2) rel(1)
      by (auto simp: name_of_def)
    have "request_path r = join_sep ''/'' rel" using v r(1,2) by (rule request_path_join)
    then have j: "joinpath root (request_path r) = p"
      using v rel(1) by (simp add: joinpath_join_sep)
    have "list_all valid_name p" using vr v(1) rel(1) by simp
    with q have res: "resolve on_loop fs (joinpath root (request_path r)) = Inr q"
      by (simp add: j resolve_namei)
    have sq: "stat fs q = Inr (File b ct mt)"
      using lq namei_normal [OF q] by (simp add: stat_real)
    then have "is_file fs q = Inr True" by (simp add: is_file_def)
    from download_file_200 [OF res pre this] sq r(3) show ?thesis
      by (simp add: streamed_def)
  qed
  from first second show ?thesis by blast
qed

theorem list_download_roundtrip_witness:
  "wf_names fs_sibling
   \<and> lookup fs_sibling [''data'', ''foo''] =
       Some (Dir [(''a.txt'', File ''hi'' 1 2), (''lnk'', Symlink ''/etc/passwd''),
                  (''peek'', Symlink ''../foobar/secret.txt''),
                  (''sub'', Dir [(''dir'', Dir [(''name.txt'', File ''abc'' 5 6)])])])
   \<and> list_files quiet guess_sample iso_sample fs_sibling [''data'', ''foo''] =
       Inr [\<lparr>name = ''a.txt'', type = ''text/plain'', size_bytes = 2,
              created_at = ''1970-01-01T00:00:01'', modified_at = ''1970-01-01T00:00:02'',
              subdirectory = []\<rparr>,
            \<lparr>name = ''lnk'', type = ''application/octet-stream'', size_bytes = 4,
              created_at = ''1970-01-01T00:00:00'', modified_at = ''1970-01-01T00:00:00'',
              subdirectory = []\<rparr>,
            \<lparr>name = ''peek'', type = ''application/octet-stream'', size_bytes = 6,
              created_at = ''1970-01-01T00:00:03'', modified_at = ''1970-01-01T00:00:04'',
              subdirectory = []\<rparr>,
            \<lparr>name = ''name.txt'', type = ''text/plain'', size_bytes = 3,
              created_at = ''1970-01-01T00:00:05'', modified_at = ''1970-01-01T00:00:06'',
              subdirectory = ''sub/dir''\<rparr>]
   \<and> (\<exists>ps. rglob fs_sibling [''data'', ''foo''] = Inr ps
          \<and> [''data'', ''foo'', ''sub'', ''dir'', ''name.txt''] \<in> set ps)
   \<and> is_file fs_sibling [''data'', ''foo'', ''sub'', ''dir'', ''name.txt''] = Inr True
   \<and> describe guess_sample iso_sample fs_sibling [''data'', ''foo'']
         [''data'', ''foo'', ''sub'', ''dir'', ''name.txt'']
       = Inr \<lparr>name = ''name.txt'', type = ''text/plain'', size_bytes = 3,
              created_at = ''1970-01-01T00:00:05'', modified_at = ''1970-01-01T00:00:06'',
              subdirectory = ''sub/dir''\<rparr>
   \<and> namei fs_sibling 0 [] [''data'', ''foo'', ''sub'', ''dir'', ''name.txt'']
       = Inr [''data'', ''foo'', ''sub'', ''dir'', ''name.txt'']
   \<and> prefix (str_path [''data'', ''foo''])
         (str_path [''data'', ''foo'', ''sub'', ''dir'', ''name.txt''])
   \<and> list_all (\<lambda>c. CHR 0x5C \<notin> set c)
         (butlast (drop (length [''data'', ''foo''])
            [''data'', ''foo'', ''sub'', ''dir'', ''name.txt'']))
   \<and> request_path \<lparr>name = ''name.txt'', type = ''text/plain'', size_bytes = 3,
              created_at = ''1970-01-01T00:00:05'', modified_at = ''1970-01-01T00:00:06'',
              subdirectory = ''sub/dir''\<rparr> = ''sub/dir/name.txt''
   \<and> download_file loop_sample fs_sibling [''data'', ''foo''] ''sub/dir/name.txt''
       = Inr \<lparr>path = [''data'', ''foo'', ''sub'', ''dir'', ''name.txt''],
              filename = name_of [''data'', ''foo'', ''sub'', ''dir'', ''name.txt''],
              media_type = ''application/octet-stream''\<rparr>
   \<and> (\<exists>b. streamed fs_sibling
              \<lparr>path = [''data'', ''foo'', ''sub'', ''dir'', ''name.txt''],
                 filename = name_of [''data'', ''foo'', ''sub'', ''dir'', ''name.txt''],
                 media_type = ''application/octet-stream''\<rparr> = Some b
          \<and> length b = 3)"
proof -
  let ?root = "[''data'', ''foo'']"
  let ?p = "[''data'', ''foo'', ''sub'', ''dir'', ''name.txt'']"
  let ?r = "\<lparr>name = ''name.txt'', type = ''text/plain'', size_bytes = 3,
              created_at = ''1970-01-01T00:00:05'', modified_at = ''1970-01-01T00:00:06'',
              subdirectory = ''sub/dir''\<rparr>"
  let ?infos = "[\<lparr>name = ''a.txt'', type = ''text/plain'', size_bytes = 2,
              created_at = ''1970-01-01T00:00:01'', modified_at = ''1970-01-01T00:00:02'',
              subdirectory = []\<rparr>,
            \<lparr>name = ''lnk'', type = ''application/octet-stream'', size_bytes = 4,
              created_at = ''1970-01-01T00:00:00'', modified_at = ''1970-01-01T00:00:00'',
              subdirectory = []\<rparr>,
            \<lparr>name = ''peek'', type = ''application/octet-stream'', size_bytes = 6,
              created_at = ''1970-01-01T00:00:03'', modified_at = ''1970-01-01T00:00:04'',
              subdirectory = []\<rparr>, ?r]"
  have w: "wf_names fs_sibling" by code_simp
  have r: "lookup fs_sibling ?root =
       Some (Dir [(''a.txt'', File ''hi'' 1 2), (''lnk'', Symlink ''/etc/passwd''),
                  (''peek'', Symlink ''../foobar/secret.txt''),
                  (''sub'', Dir [(''dir'', Dir [(''name.txt'', File ''abc'' 5 6)])])])"
    by code_simp
  have l: "list_files quiet guess_sample iso_sample fs_sibling ?root = Inr ?infos"
    by code_simp
  have "rglob fs_sibling ?root =
     Inr [[''data'', ''foo'', ''a.txt''], [''data'', ''foo'', ''lnk''],
          [''data'', ''foo'', ''peek''], [''data'', ''foo'', ''sub''],
          [''data'', ''foo'', ''sub'', ''dir''], ?p]"
    by code_simp
  then have h1: "\<exists>ps. rglob fs_sibling ?root = Inr ps \<and> ?p \<in> set ps" by simp
  have h2: "is_file fs_sibling ?p = Inr True" by code_simp
  have h3: "describe guess_sample iso_sample fs_sibling ?root ?p = Inr ?r" by code_simp
  have h4: "namei fs_sibling 0 [] ?p = Inr ?p" by code_simp
  have h5: "prefix (str_path ?root) (str_path ?p)" by code_simp
  have h6: "list_all (\<lambda>c. CHR 0x5C \<notin> set c) (butlast (drop (length ?root) ?p))"
    by code_simp
  have rp: "request_path ?r = ''sub/dir/name.txt''" by code_simp
  have sz: "size_bytes ?r = 3" by simp
  from list_download_roundtrip [OF w r l, of loop_sample] h1 h2 h3 h4 h5 h6
  have "download_file loop_sample fs_sibling ?root (request_path ?r)
          = Inr \<lparr>path = ?p, filename = name_of ?p, media_type = ''application/octet-stream''\<rparr>
        \<and> (\<exists>b. streamed fs_sibling
                  \<lparr>path = ?p, filename = name_of ?p,
                     media_type = ''application/octet-stream''\<rparr> = Some b
              \<and> length b = size_bytes ?r)"
    by blast
  then show ?thesis unfolding rp sz using w r l h1 h2 h3 h4 h5 h6 rp by blast
qed

text \<open>
  C4, as the claim states it, at two concrete inputs. The listing of \<^verbatim>\<open>/data/foo\<close> has
  a record for the link \<^verbatim>\<open>lnk\<close>, which leads to \<^verbatim>\<open>/etc/passwd\<close>; the request for it is
  refused with 400. The listing of \<^verbatim>\<open>/srv/files\<close> has a record for the file in the
  directory whose name has a backslash, with the subdirectory \<^verbatim>\<open>a/b\<close>; the request for
  it is answered with 404.
\<close>

theorem list_download_roundtrip_counterexample:
  "list_files quiet guess_sample iso_sample fs_sibling [''data'', ''foo''] =
       Inr [\<lparr>name = ''a.txt'', type = ''text/plain'', size_bytes = 2,
              created_at = ''1970-01-01T00:00:01'', modified_at = ''1970-01-01T00:00:02'',
              subdirectory = []\<rparr>,
            \<lparr>name = ''lnk'', type = ''application/octet-stream'', size_bytes = 4,
              created_at = ''1970-01-01T00:00:00'', modified_at = ''1970-01-01T00:00:00'',
              subdirectory = []\<rparr>,
            \<lparr>name = ''peek'', type = ''application/octet-stream'', size_bytes = 6,
              created_at = ''1970-01-01T00:00:03'', modified_at = ''1970-01-01T00:00:04'',
              subdirectory = []\<rparr>,
            \<lparr>name = ''name.txt'', type = ''text/plain'', size_bytes = 3,
              created_at = ''1970-01-01T00:00:05'', modified_at = ''1970-01-01T00:00:06'',
              subdirectory = ''sub/dir''\<rparr>]
   \<and> download_file loop_sample fs_sibling [''data'', ''foo'']
         (request_path \<lparr>name = ''lnk'', type = ''application/octet-stream'', size_bytes = 4,
              created_at = ''1970-01-01T00:00:00'', modified_at = ''1970-01-01T00:00:00'',
              subdirectory = []\<rparr>)
       = Inl \<lparr>status_code = 400, detail = caminho_invalido\<rparr>
   \<and> list_files quiet guess_sample iso_sample fs_backslash [''srv'', ''files''] =
       Inr [\<lparr>name = ''f.txt'', type = ''text/plain'', size_bytes = 4,
              created_at = ''1970-01-01T00:00:01'', modified_at = ''1970-01-01T00:00:01'',
              subdirectory = ''a/b''\<rparr>]
   \<and> download_file loop_sample fs_backslash [''srv'', ''files'']
         (request_path \<lparr>name = ''f.txt'', type = ''text/plain'', size_bytes = 4,
              created_at = ''1970-01-01T00:00:01'', modified_at = ''1970-01-01T00:00:01'',
              subdirectory = ''a/b''\<rparr>)
       = Inl \<lparr>status_code = 404, detail = arquivo_nao_encontrado\<rparr>"
  by code_simp

section \<open>The start-up function: theorems\<close>














end
